theory Spec2Isabelle
  imports Complex_Main "HOL-Library.AList"
begin

section \<open>Common vocabulary\<close>

text \<open>
  The Python exceptions that the modelled code can raise by its own operations: indexing an
  empty list, looking up or removing an absent key, matching a regular expression against
  \<open>None\<close>, calling a method the object does not have, sleeping a negative time.
  \<open>DatabaseError\<close> stands for the exceptions of psycopg2 (\<open>psycopg2.Error\<close>), raised when the
  database refuses a connection, a statement or the end of a transaction.
\<close>

datatype py_error =
  IndexError | KeyError | TypeError | AttributeError | ValueError | DatabaseError

type_synonym cid = string

text \<open>An argument that the code accepts either as one value or as a list of values.\<close>

datatype 'a one_or_many = One 'a | Many "'a list"

section \<open>dbConnector.py: the reentrant connection manager\<close>

subsection \<open>Statements sent to the database\<close>

text \<open>
  A parameter of a query is a string, an integer or \<open>None\<close>; a set of parameters is a list
  of them. The statements a cursor executes in \<open>executeMany\<close> are the preparation of the
  query, the batch and the deallocation.
\<close>

datatype pyval = PStr string | PInt int | PNone

type_synonym row = "pyval list"

datatype sql = Prepare string | Batch string "row list" | Deallocate

text \<open>
  The queries of \<open>dbStructure.Statements\<close> used by the Store Agent. Their texts are not part of
  the modelled files: every function below takes them as the parameter \<open>query\<close>.
\<close>

datatype Statements = insertFailed | insertParsed | insertRecord | selectCid

text \<open>
  How the database behaves towards the connector: whether \<open>psycopg2.connect\<close> returns a
  connection or raises, whether the \<open>__exit__\<close> of a connection returns or raises, which
  statements a cursor executes and which it refuses by raising, and whether \<open>commit\<close> on a
  connection returns or raises.
\<close>

record db_env =
  connect_ok :: bool
  exit_ok :: bool
  accepts :: "sql \<Rightarrow> bool"
  commit_ok :: bool

subsection \<open>The connector\<close>

text \<open>
  The fields of a \<open>DbConnector\<close> object, together with what its calls do to the database:
  \<open>connects\<close> counts the connections that \<open>psycopg2.connect\<close> has returned (the handle of a
  connection is its number), \<open>exits\<close> counts the calls of a connection's own \<open>__exit__\<close> that
  have returned, \<open>pending\<close> holds the statements of the open transaction, \<open>committed\<close>
  those of the committed transactions and \<open>queried\<close> the ids whose existence has been asked,
  in the order of the queries. \<open>sent\<close> is the log of the messages the Store Agent has put on
  its pipe.
\<close>

record 'm db_state =
  connection :: "nat option"
  nesting :: int
  connects :: nat
  exits :: nat
  pending :: "sql list"
  committed :: "sql list"
  queried :: "cid option list"
  sent :: "'m list"

definition DbConnector_init :: "'m db_state" where
  "DbConnector_init =
     \<lparr>connection = None, nesting = 0, connects = 0, exits = 0,
      pending = [], committed = [], queried = [], sent = []\<rparr>"

text \<open>
  \<open>DbConnector.__enter__\<close>. At depth zero the counter is set to one before
  \<open>psycopg2.connect\<close> is called, so a connection that is refused leaves the counter at one
  and no connection behind.
\<close>

definition enter :: "db_env \<Rightarrow> 'm db_state \<Rightarrow> (py_error \<times> 'm db_state) + 'm db_state" where
  "enter db s =
     (if nesting s \<noteq> 0 then Inr (s\<lparr>nesting := nesting s + 1\<rparr>)
      else
        (let s1 = s\<lparr>nesting := 1\<rparr> in
         if connect_ok db
         then Inr (s1\<lparr>connection := Some (connects s1), connects := connects s1 + 1\<rparr>)
         else Inl (DatabaseError, s1)))"

text \<open>
  The \<open>__exit__\<close> of a psycopg2 connection when it returns: the open transaction is committed
  when the block ended normally and rolled back when it ended by an exception. The
  connection itself stays open.
\<close>

definition connection_exit :: "bool \<Rightarrow> 'm db_state \<Rightarrow> 'm db_state" where
  "connection_exit exc s =
     (if exc then s\<lparr>pending := [], exits := exits s + 1\<rparr>
      else s\<lparr>committed := committed s @ pending s, pending := [], exits := exits s + 1\<rparr>)"

text \<open>
  \<open>DbConnector.__exit__\<close>; \<open>exc\<close> tells whether the block is left by an exception. The
  counter is decremented first. At depth zero the call goes to the connection: without a
  connection it raises \<open>AttributeError\<close>, and when the connection's \<open>__exit__\<close> raises, the
  statement that clears the connection is not reached.
\<close>

definition exit_conn ::
  "db_env \<Rightarrow> bool \<Rightarrow> 'm db_state \<Rightarrow> (py_error \<times> 'm db_state) + 'm db_state" where
  "exit_conn db exc s =
     (let s1 = s\<lparr>nesting := nesting s - 1\<rparr> in
      if nesting s1 = 0 then
        (case connection s1 of
           None \<Rightarrow> Inl (AttributeError, s1)
         | Some h \<Rightarrow>
             if exit_ok db then Inr ((connection_exit exc s1)\<lparr>connection := None\<rparr>)
             else Inl (DatabaseError, s1))
      else Inr s1)"

text \<open>
  Leaving a \<open>with\<close>-block on the connector with the outcome of its body: the block is left
  through \<open>__exit__\<close> whether the body returned or raised. An exception of the body goes on
  after it (\<open>__exit__\<close> returns nothing, so it suppresses none), unless \<open>__exit__\<close> raises
  itself.
\<close>

definition leave_with ::
  "db_env \<Rightarrow> (py_error \<times> 'm db_state) + ('a \<times> 'm db_state) \<Rightarrow>
   (py_error \<times> 'm db_state) + ('a \<times> 'm db_state)" where
  "leave_with db r =
     (case r of
        Inl (e, s1) \<Rightarrow>
          (case exit_conn db True s1 of Inl (e', s2) \<Rightarrow> Inl (e', s2) | Inr s2 \<Rightarrow> Inl (e, s2))
      | Inr (x, s1) \<Rightarrow>
          (case exit_conn db False s1 of Inl (e', s2) \<Rightarrow> Inl (e', s2) | Inr s2 \<Rightarrow> Inr (x, s2)))"

text \<open>
  The statement \<open>with self: body\<close>: when \<open>__enter__\<close> raises, neither the body nor \<open>__exit__\<close>
  runs; otherwise the body runs in the entered state and the block is left with its
  outcome.
\<close>

definition with_self ::
  "db_env \<Rightarrow> ('m db_state \<Rightarrow> (py_error \<times> 'm db_state) + ('a \<times> 'm db_state)) \<Rightarrow>
   'm db_state \<Rightarrow> (py_error \<times> 'm db_state) + ('a \<times> 'm db_state)" where
  "with_self db body s =
     (case enter db s of
        Inl e \<Rightarrow> Inl e
      | Inr s1 \<Rightarrow> leave_with db (body s1))"

text \<open>
  \<open>DbConnector.commit\<close>: the call goes to the connection, which must be there, and the
  database may refuse it.
\<close>

definition commit ::
  "db_env \<Rightarrow> 'm db_state \<Rightarrow> (py_error \<times> 'm db_state) + (unit \<times> 'm db_state)" where
  "commit db s =
     (case connection s of
        None \<Rightarrow> Inl (AttributeError, s)
      | Some h \<Rightarrow>
          if commit_ok db
          then Inr ((), s\<lparr>committed := committed s @ pending s, pending := []\<rparr>)
          else Inl (DatabaseError, s))"

text \<open>
  A string is a list of characters with code below 256. These are the ones among them that
  \<open>str.strip\<close> removes from both ends.
\<close>

definition is_space :: "char \<Rightarrow> bool" where
  "is_space c \<longleftrightarrow>
     c \<in> set [CHR '' '', CHR 0x09, CHR 0x0A, CHR 0x0B, CHR 0x0C, CHR 0x0D,
               CHR 0x1C, CHR 0x1D, CHR 0x1E, CHR 0x1F, CHR 0x85, CHR 0xA0]"

definition strip :: "string \<Rightarrow> string" where
  "strip q = rev (dropWhile is_space (rev (dropWhile is_space q)))"

definition startswith :: "string \<Rightarrow> string \<Rightarrow> bool" where
  "startswith q p \<longleftrightarrow> take (length p) q = p"

fun join :: "string \<Rightarrow> string list \<Rightarrow> string" where
  "join sep [] = []"
| "join sep [x] = x"
| "join sep (x # y # ys) = x @ sep @ join sep (y # ys)"

text \<open>
  The statements of a cursor, one after the other: a statement that the database accepts
  joins the open transaction, and the first one it refuses raises.
\<close>

fun cursor_execute ::
  "db_env \<Rightarrow> sql list \<Rightarrow> 'm db_state \<Rightarrow> (py_error \<times> 'm db_state) + 'm db_state" where
  "cursor_execute db [] s = Inr s"
| "cursor_execute db (w # ws) s =
     (if accepts db w then cursor_execute db ws (s\<lparr>pending := pending s @ [w]\<rparr>)
      else Inl (DatabaseError, s))"

text \<open>
  \<open>DbConnector.executeMany\<close>. An empty list of parameters returns at once. Otherwise the
  statements are executed inside \<open>with self\<close>, and the last statement of the block calls
  \<open>self._executeMany\<close>. \<open>has_executeMany\<close> tells whether the object has such a method. The
  class \<open>DbConnector\<close> defines none: the code is the case \<open>False\<close>, in which the call raises
  \<open>AttributeError\<close> after the batch has been handed to the cursor. In the case \<open>True\<close> the
  call returns and leaves the database as it is.
\<close>

definition executeMany ::
  "db_env \<Rightarrow> bool \<Rightarrow> string \<Rightarrow> row list \<Rightarrow> 'm db_state \<Rightarrow>
   (py_error \<times> 'm db_state) + (unit \<times> 'm db_state)" where
  "executeMany db has_executeMany q params s =
     (case params of
        [] \<Rightarrow> Inr ((), s)
      | p0 # _ \<Rightarrow>
          (let prepared = startswith (strip q) ''EXECUTE'';
               placeholder = '' ('' @ join '','' (map (\<lambda>x. ''%s'') [0 ..< length p0]) @ '')'';
               mainQuery = (if \<not> prepared then ''EXECUTE stmt'' @ placeholder else q)
           in with_self db
                (\<lambda>s1. case connection s1 of
                         None \<Rightarrow> Inl (AttributeError, s1)
                       | Some h \<Rightarrow>
                           (case cursor_execute db
                                   ((if \<not> prepared then [Prepare q] else []) @
                                    [Batch mainQuery params] @
                                    (if \<not> prepared then [Deallocate] else [])) s1 of
                              Inl e \<Rightarrow> Inl e
                            | Inr s2 \<Rightarrow>
                                if has_executeMany then Inr ((), s2)
                                else Inl (AttributeError, s2)))
                s))"

text \<open>
  \<open>DbConnector.executeAndFetch\<close> for the existence query with one argument (an id, or
  \<open>None\<close>). The query is taken to be answered, and the answer is the parameter \<open>known\<close>:
  whether the first column of the first row returned for that argument is true.
\<close>

definition executeAndFetch ::
  "db_env \<Rightarrow> (cid option \<Rightarrow> bool) \<Rightarrow> string \<Rightarrow> cid option \<Rightarrow> 'm db_state \<Rightarrow>
   (py_error \<times> 'm db_state) + (bool \<times> 'm db_state)" where
  "executeAndFetch db known q c s =
     with_self db
       (\<lambda>s1. case connection s1 of
                None \<Rightarrow> Inl (AttributeError, s1)
              | Some h \<Rightarrow> Inr (known c, s1\<lparr>queried := queried s1 @ [c]\<rparr>))
       s"

section \<open>converter.py: the Store Agent\<close>

text \<open>
  The messages the Store Agent sends: \<open>Markers.END\<close>, \<open>(Markers.TEXT_LIST, refCid, cids)\<close>
  and \<open>(Markers.TEXT, cid)\<close>.
\<close>

datatype db_msg = DbEnd | DbTextList cid "cid list" | DbText cid

text \<open>
  A parsed text as \<open>_parseText\<close> builds it: the dictionary with \<open>success\<close> false carries the
  id only, the one with \<open>success\<close> true carries the id, the publication date and the data.
  \<open>_storeText\<close> reads the date and the data of the successful texts only.
\<close>

datatype parsed = Failure cid | Success cid int "row list"

fun success :: "parsed \<Rightarrow> bool" where
  "success (Failure c) = False"
| "success (Success c d rs) = True"

fun cid_of :: "parsed \<Rightarrow> cid" where
  "cid_of (Failure c) = c"
| "cid_of (Success c d rs) = c"

fun publicationDate :: "parsed \<Rightarrow> int" where
  "publicationDate (Failure c) = 0"
| "publicationDate (Success c d rs) = d"

fun data :: "parsed \<Rightarrow> row list" where
  "data (Failure c) = []"
| "data (Success c d rs) = rs"

text \<open>The orders the Store Agent receives.\<close>

datatype db_order = OEnd | OTextList "cid one_or_many" | OText "parsed one_or_many"

fun as_list :: "'a one_or_many \<Rightarrow> 'a list" where
  "as_list (One x) = [x]"
| "as_list (Many xs) = xs"

text \<open>
  The loop of \<open>_checkIfKnown\<close> over the indices of the list: the entry at index \<open>i\<close> is
  the argument of the existence query and is replaced by \<open>None\<close> when the database knows it.
\<close>

function checkIfKnown_loop ::
  "db_env \<Rightarrow> (cid option \<Rightarrow> bool) \<Rightarrow> string \<Rightarrow> nat \<Rightarrow> cid option list \<Rightarrow> 'm db_state \<Rightarrow>
   (py_error \<times> 'm db_state) + (cid option list \<times> 'm db_state)" where
  "checkIfKnown_loop db known q i cidList s =
     (if i < length cidList then
        (case executeAndFetch db known q (cidList ! i) s of
           Inl e \<Rightarrow> Inl e
         | Inr (r, s1) \<Rightarrow>
             checkIfKnown_loop db known q (i + 1)
               (if r then cidList[i := None] else cidList) s1)
      else Inr (cidList, s))"
  by pat_completeness auto
termination
  by (relation "measure (\<lambda>(db, known, q, i, cidList, s). length cidList - i)") auto

declare checkIfKnown_loop.simps [simp del]

text \<open>\<open>_checkIfKnown\<close>: the first id is read before the loop, so an empty list raises.\<close>

definition checkIfKnown ::
  "db_env \<Rightarrow> (Statements \<Rightarrow> string) \<Rightarrow> (cid option \<Rightarrow> bool) \<Rightarrow> cid one_or_many \<Rightarrow>
   db_msg db_state \<Rightarrow> (py_error \<times> db_msg db_state) + (unit \<times> db_msg db_state)" where
  "checkIfKnown db query known arg s =
     (case as_list arg of
        [] \<Rightarrow> Inl (IndexError, s)
      | refCid # _ \<Rightarrow>
          (case checkIfKnown_loop db known (query selectCid) 0 (map Some (as_list arg)) s of
             Inl e \<Rightarrow> Inl e
           | Inr (cidList, s1) \<Rightarrow>
               Inr ((), s1\<lparr>sent := sent s1 @
                           [DbTextList refCid (map the (filter (\<lambda>x. x \<noteq> None) cidList))]\<rparr>)))"

text \<open>
  \<open>_storeText\<close>. \<open>has_executeMany\<close> is handed on to \<open>executeMany\<close>; the code is the case
  \<open>False\<close>.
\<close>

definition storeText ::
  "db_env \<Rightarrow> bool \<Rightarrow> (Statements \<Rightarrow> string) \<Rightarrow> parsed one_or_many \<Rightarrow> db_msg db_state \<Rightarrow>
   (py_error \<times> db_msg db_state) + (unit \<times> db_msg db_state)" where
  "storeText db has_executeMany query arg s =
     (let texts = as_list arg;
          succ = filter success texts;
          failure = map cid_of (filter (\<lambda>t. \<not> success t) texts)
      in case (if failure \<noteq> []
               then executeMany db has_executeMany (query insertFailed)
                      (map (\<lambda>x. [PStr x]) failure) s
               else Inr ((), s)) of
           Inl e \<Rightarrow> Inl e
         | Inr (u1, s1) \<Rightarrow>
            (case (if succ \<noteq> []
                   then (case executeMany db has_executeMany (query insertParsed)
                                 (map (\<lambda>x. [PStr (cid_of x), PInt (publicationDate x)]) succ) s1 of
                           Inl e \<Rightarrow> Inl e
                         | Inr (u2, s2) \<Rightarrow>
                             executeMany db has_executeMany (query insertRecord)
                               (concat (map data succ)) s2)
                   else Inr ((), s1)) of
               Inl e \<Rightarrow> Inl e
             | Inr (u3, s3) \<Rightarrow>
                (case commit db s3 of
                   Inl e \<Rightarrow> Inl e
                 | Inr (u4, s4) \<Rightarrow>
                     Inr ((), s4\<lparr>sent := sent s4 @ map (\<lambda>t. DbText (cid_of t)) texts @ [DbEnd]\<rparr>))))"

text \<open>
  The loop of \<open>createDbManager\<close>, inside the connection block: \<open>order\<close> is the order at hand
  and \<open>rest\<close> the orders still to arrive. When the orders run out before \<open>Markers.END\<close> the
  agent waits in \<open>recv\<close> for ever, which is the value \<open>None\<close>.
\<close>

fun db_loop ::
  "db_env \<Rightarrow> bool \<Rightarrow> (Statements \<Rightarrow> string) \<Rightarrow> (cid option \<Rightarrow> bool) \<Rightarrow> db_order \<Rightarrow>
   db_order list \<Rightarrow> db_msg db_state \<Rightarrow>
   ((py_error \<times> db_msg db_state) + (unit \<times> db_msg db_state)) option" where
  "db_loop db has_executeMany query known OEnd rest s = Some (Inr ((), s))"
| "db_loop db has_executeMany query known (OTextList cids) rest s =
     (case checkIfKnown db query known cids s of
        Inl e \<Rightarrow> Some (Inl e)
      | Inr (u, s1) \<Rightarrow>
          (case rest of
             [] \<Rightarrow> None
           | order # rest' \<Rightarrow> db_loop db has_executeMany query known order rest' s1))"
| "db_loop db has_executeMany query known (OText texts) rest s =
     (case storeText db has_executeMany query texts s of
        Inl e \<Rightarrow> Some (Inl e)
      | Inr (u, s1) \<Rightarrow>
          (case rest of
             [] \<Rightarrow> None
           | order # rest' \<Rightarrow> db_loop db has_executeMany query known order rest' s1))"

text \<open>
  \<open>createDbManager\<close>: the first order is received, the block
  \<open>with DbConnector(...) as connector\<close> is entered, the statements are prepared and the loop
  runs; the block is left with the outcome of the loop. \<open>prepareStatements\<close> belongs to
  \<open>dbStructure\<close>, which is not part of the modelled files, and is the parameter \<open>prep\<close>.
\<close>

definition createDbManager ::
  "db_env \<Rightarrow> bool \<Rightarrow> (Statements \<Rightarrow> string) \<Rightarrow> (cid option \<Rightarrow> bool) \<Rightarrow>
   (db_msg db_state \<Rightarrow> (py_error \<times> db_msg db_state) + (unit \<times> db_msg db_state)) \<Rightarrow>
   db_order list \<Rightarrow>
   ((py_error \<times> db_msg db_state) + (unit \<times> db_msg db_state)) option" where
  "createDbManager db has_executeMany query known prep orders =
     (case orders of
        [] \<Rightarrow> None
      | order # rest \<Rightarrow>
          (case enter db DbConnector_init of
             Inl e \<Rightarrow> Some (Inl e)
           | Inr s0 \<Rightarrow>
               map_option (leave_with db)
                 (case prep s0 of
                    Inl e \<Rightarrow> Some (Inl e)
                  | Inr (u, s) \<Rightarrow> db_loop db has_executeMany query known order rest s)))"

subsection \<open>Nested blocks\<close>

text \<open>
  Nested \<open>with\<close>-blocks on one connector: a block whose body is a sequence of further blocks.
\<close>

datatype wblock = With "wblock list"

fun run_block ::
    "db_env \<Rightarrow> wblock \<Rightarrow> 'm db_state \<Rightarrow> (py_error \<times> 'm db_state) + (unit \<times> 'm db_state)"
  and run_blocks ::
    "db_env \<Rightarrow> wblock list \<Rightarrow> 'm db_state \<Rightarrow> (py_error \<times> 'm db_state) + (unit \<times> 'm db_state)"
  where
  "run_block db (With bs) s = with_self db (run_blocks db bs) s"
| "run_blocks db [] s = Inr ((), s)"
| "run_blocks db (b # bs) s =
     (case run_block db b s of Inl e \<Rightarrow> Inl e | Inr (u, s1) \<Rightarrow> run_blocks db bs s1)"

text \<open>The connector holds a connection exactly when its nesting counter is positive.\<close>

definition conn_inv :: "'m db_state \<Rightarrow> bool" where
  "conn_inv s \<longleftrightarrow> 0 \<le> nesting s \<and> (connection s \<noteq> None) = (0 < nesting s)"

text \<open>Two states of the connector that differ in the open transaction at most.\<close>

definition only_pending :: "'m db_state \<Rightarrow> 'm db_state \<Rightarrow> bool" where
  "only_pending s s1 \<longleftrightarrow>
     connection s1 = connection s \<and> nesting s1 = nesting s \<and> connects s1 = connects s \<and>
     exits s1 = exits s \<and> committed s1 = committed s \<and> queried s1 = queried s \<and>
     sent s1 = sent s"

text \<open>
  A database that refuses nothing, and the state of a new connector that has entered its
  first block on it.
\<close>

definition db_fine :: db_env where
  "db_fine = \<lparr>connect_ok = True, exit_ok = True, accepts = (\<lambda>w. True), commit_ok = True\<rparr>"

definition in_block :: "'m db_state" where
  "in_block =
     \<lparr>connection = Some 0, nesting = 1, connects = 1, exits = 0,
      pending = [], committed = [], queried = [], sent = []\<rparr>"

section \<open>legiConnector.py: the Quota Guard\<close>

text \<open>
  \<open>_PERIOD\<close> is the length of the quota period in seconds and \<open>_QUOTA_LIMIT\<close> the number of
  requests allowed in one period.
\<close>

definition PERIOD :: int where
  "PERIOD = 60"

definition QUOTA_LIMIT :: nat where
  "QUOTA_LIMIT = 100"

text \<open>
  The clock \<open>time()\<close> is a rational number of seconds. \<open>int(x)\<close> cuts the fraction off,
  towards zero.
\<close>

definition py_int :: "rat \<Rightarrow> int" where
  "py_int x = (if 0 \<le> x then \<lfloor>x\<rfloor> else \<lceil>x\<rceil>)"

text \<open>
  The loop of \<open>_checkQuotas\<close>: the index moves on while it is inside the list and the entry
  under it lies before \<open>now\<close>.
\<close>

function checkQuotas_loop :: "rat \<Rightarrow> int list \<Rightarrow> nat \<Rightarrow> nat" where
  "checkQuotas_loop now quotas i =
     (if i < length quotas \<and> of_int (quotas ! i) < now
      then checkQuotas_loop now quotas (i + 1) else i)"
  by pat_completeness auto
termination
  by (relation "measure (\<lambda>(now, quotas, i). length quotas - i)") auto

declare checkQuotas_loop.simps [simp del]

definition checkQuotas :: "rat \<Rightarrow> int list \<Rightarrow> int list" where
  "checkQuotas now quotas = drop (checkQuotas_loop now quotas 0) quotas"

text \<open>
  \<open>sleep(d)\<close> at time \<open>now\<close>: a negative duration raises; otherwise the caller is suspended
  for the duration asked and for \<open>late\<close> more, the time by which the wake-up is late.
\<close>

definition sleep :: "rat \<Rightarrow> int \<Rightarrow> rat \<Rightarrow> py_error + rat" where
  "sleep late d now = (if d < 0 then Inl ValueError else Inr (now + of_int d + late))"

text \<open>
  One call of \<open>_waitIfNeeded\<close> reads the clock four times: in the first \<open>_checkQuotas\<close>, in
  the argument of \<open>sleep\<close>, in the second \<open>_checkQuotas\<close> and for the new expiry. \<open>to_sleep\<close>
  is the time that passes from the first reading to the second, \<open>to_check\<close> the time from
  the wake-up (or, without sleep, from the first reading) to the third, \<open>to_append\<close> the time
  from the third to the fourth, and \<open>late\<close> the lateness of the wake-up.
\<close>

record timing =
  to_sleep :: rat
  to_check :: rat
  to_append :: rat
  late :: rat

text \<open>
  \<open>_waitIfNeeded\<close>, called on the window \<open>quotas\<close> with its first clock reading \<open>now\<close>. The
  result is the new window and the last clock reading, the time of the return.
\<close>

definition waitIfNeeded :: "timing \<Rightarrow> rat \<Rightarrow> int list \<Rightarrow> py_error + (int list \<times> rat)" where
  "waitIfNeeded tm now quotas =
     (let q1 = checkQuotas now quotas in
      case (if QUOTA_LIMIT \<le> length q1
            then (case q1 of
                    [] \<Rightarrow> Inl IndexError
                  | q0 # _ \<Rightarrow>
                      sleep (late tm) (q0 - py_int (now + to_sleep tm) + 1) (now + to_sleep tm))
            else Inr now) of
        Inl e \<Rightarrow> Inl e
      | Inr woken \<Rightarrow>
          (let now2 = woken + to_check tm;
               q2 = checkQuotas now2 q1;
               now3 = now2 + to_append tm
           in Inr (q2 @ [py_int now3 + PERIOD], now3)))"

text \<open>
  A run of calls of \<open>_waitIfNeeded\<close> on one window, each call given by its timing and its
  first clock reading. The result is the last window and the times at which the calls
  returned, that is, at which the requests went out.
\<close>

fun waitIfNeeded_run ::
  "(timing \<times> rat) list \<Rightarrow> int list \<Rightarrow> py_error + (int list \<times> rat list)" where
  "waitIfNeeded_run [] quotas = Inr (quotas, [])"
| "waitIfNeeded_run ((tm, now) # calls) quotas =
     (case waitIfNeeded tm now quotas of
        Inl e \<Rightarrow> Inl e
      | Inr (quotas', t) \<Rightarrow>
          (case waitIfNeeded_run calls quotas' of
             Inl e \<Rightarrow> Inl e
           | Inr (quotas'', ts) \<Rightarrow> Inr (quotas'', t # ts)))"

section \<open>converter.py: the Source Agent\<close>

text \<open>
  The answer of Legifrance to a \<open>/search\<close> query: its entries \<open>totalResultNumber\<close> and
  \<open>results\<close>, the results of the page, each result with the ids of its titles.
\<close>

record search_response =
  sr_totalResultNumber :: int
  sr_results :: "cid list list"

text \<open>
  The answer of Legifrance to a \<open>/consult/jorf\<close> query, a dictionary decoded from JSON. An
  entry that the dictionary does not have is \<open>None\<close>; reading it raises \<open>KeyError\<close>. An
  article is given by its entry \<open>content\<close>, likewise.
\<close>

type_synonym article = "string option"

record jorf_response =
  jorf_cid :: "cid option"
  dateParution :: "int option"
  articles :: "article list option"

text \<open>
  The text that \<open>_filterLegiText\<close> builds: its id, its publication date in milliseconds and
  its content, which is \<open>None\<close> when there is none.
\<close>

record legi_text =
  t_cid :: cid
  t_publicationDate :: int
  t_content :: "string option"

text \<open>
  The messages the Source Agent sends: \<open>(Markers.END, filter)\<close>,
  \<open>(Markers.TEXT_LIST, filter, cids)\<close> and \<open>(Markers.TEXT, text)\<close>.
\<close>

datatype 'f legi_msg = LEnd 'f | LTextList 'f "cid list" | LText legi_text

text \<open>
  The orders the Source Agent receives: \<open>Markers.END\<close>, \<open>(Markers.TEXT_LIST, filter)\<close> and
  \<open>(Markers.TEXT, cid or cids)\<close>.
\<close>

datatype 'f legi_order = LegiEnd | ListOrder 'f | TextOrder "cid one_or_many"

text \<open>
  \<open>_getTextIdListHelper\<close>: one page is asked of the remote listing \<open>search\<close>; the id kept of
  each result is that of its first title, and a result without title raises.
\<close>

fun first_cids :: "cid list list \<Rightarrow> py_error + cid list" where
  "first_cids [] = Inr []"
| "first_cids ([] # xs) = Inl IndexError"
| "first_cids ((c # cs) # xs) =
     (case first_cids xs of Inl e \<Rightarrow> Inl e | Inr ys \<Rightarrow> Inr (c # ys))"

definition getTextIdListHelper ::
  "(nat \<Rightarrow> search_response) \<Rightarrow> nat \<Rightarrow> int \<Rightarrow> py_error + (nat \<times> int \<times> int \<times> cid list)" where
  "getTextIdListHelper search pageNumber resultNumber =
     (let res = search pageNumber in
      case first_cids (sr_results res) of
        Inl e \<Rightarrow> Inl e
      | Inr textList \<Rightarrow>
          Inr (pageNumber + 1, resultNumber + int (length (sr_results res)),
               sr_totalResultNumber res, textList))"

text \<open>
  The \<open>while\<close> loop of \<open>_getTextIdList\<close>. \<open>yielded\<close> holds what has been yielded so far, each
  list of ids with the number of the page it was asked for. The loop need not end: when it
  does not, the value is \<open>None\<close>.
\<close>

partial_function (option) getTextIdList_loop ::
  "(nat \<Rightarrow> search_response) \<Rightarrow> nat \<Rightarrow> int \<Rightarrow> int \<Rightarrow> (nat \<times> cid list) list \<Rightarrow>
   ((py_error \<times> (nat \<times> cid list) list) + (nat \<times> cid list) list) option" where
  "getTextIdList_loop search pageNumber currentResultNumber totalResultNumber yielded =
     (if currentResultNumber < totalResultNumber then
        (case getTextIdListHelper search pageNumber currentResultNumber of
           Inl e \<Rightarrow> Some (Inl (e, yielded))
         | Inr (pageNumber', currentResultNumber', totalResultNumber', textList) \<Rightarrow>
             getTextIdList_loop search pageNumber' currentResultNumber' totalResultNumber'
               (yielded @ [(pageNumber, textList)]))
      else Some (Inr yielded))"

text \<open>\<open>_getTextIdList\<close>: the first page is asked for and yielded before the loop.\<close>

definition getTextIdList ::
  "(nat \<Rightarrow> search_response) \<Rightarrow>
   ((py_error \<times> (nat \<times> cid list) list) + (nat \<times> cid list) list) option" where
  "getTextIdList search =
     (case getTextIdListHelper search 1 0 of
        Inl e \<Rightarrow> Some (Inl (e, []))
      | Inr (pageNumber, currentResultNumber, totalResultNumber, textList) \<Rightarrow>
          getTextIdList_loop search pageNumber currentResultNumber totalResultNumber
            [(1, textList)])"

text \<open>
  The branch of \<open>createTextProvider\<close> for an order \<open>(Markers.TEXT_LIST, filter)\<close>: one message
  for each list yielded, then the end of the list. The messages sent before an exception
  have been sent.
\<close>

definition list_order ::
  "(nat \<Rightarrow> search_response) \<Rightarrow> 'f \<Rightarrow> ((py_error \<times> 'f legi_msg list) + 'f legi_msg list) option" where
  "list_order search f =
     (case getTextIdList search of
        None \<Rightarrow> None
      | Some (Inl (e, yielded)) \<Rightarrow> Some (Inl (e, map (\<lambda>(n, textList). LTextList f textList) yielded))
      | Some (Inr yielded) \<Rightarrow>
          Some (Inr (map (\<lambda>(n, textList). LTextList f textList) yielded @ [LEnd f])))"

text \<open>\<open>_filterLegiText\<close>. The entries are read in the order of the dictionary display.\<close>

definition filterLegiText :: "jorf_response \<Rightarrow> py_error + legi_text" where
  "filterLegiText text =
     (case jorf_cid text of
        None \<Rightarrow> Inl KeyError
      | Some c \<Rightarrow>
          (case dateParution text of
             None \<Rightarrow> Inl KeyError
           | Some d \<Rightarrow>
               (case articles text of
                  None \<Rightarrow> Inl KeyError
                | Some arts \<Rightarrow>
                    if length arts = 1 then
                      (case arts ! 0 of
                         None \<Rightarrow> Inl KeyError
                       | Some ct \<Rightarrow>
                           Inr \<lparr>t_cid = c, t_publicationDate = d, t_content = Some ct\<rparr>)
                    else Inr \<lparr>t_cid = c, t_publicationDate = d, t_content = None\<rparr>)))"

text \<open>
  The branch of \<open>createTextProvider\<close> for an order \<open>(Markers.TEXT, cid or cids)\<close>: \<open>_getText\<close>
  asks the remote service \<open>consult\<close> for each id in turn, and each answer is filtered and
  sent before the next id is asked for. \<open>out\<close> holds the messages sent so far.
\<close>

fun text_order ::
  "(cid \<Rightarrow> jorf_response) \<Rightarrow> cid list \<Rightarrow> 'f legi_msg list \<Rightarrow>
   (py_error \<times> 'f legi_msg list) + 'f legi_msg list" where
  "text_order consult [] out = Inr out"
| "text_order consult (e # es) out =
     (case filterLegiText (consult e) of
        Inl err \<Rightarrow> Inl (err, out)
      | Inr t \<Rightarrow> text_order consult es (out @ [LText t]))"

section \<open>basePattern.py and converter.py: parsing a text\<close>

text \<open>
  What the Coordinator needs of the filters and patterns. \<open>structs\<close> gives the patterns of a
  search filter (\<open>legiStructure\<close> is not part of the modelled files). \<open>re_match p t\<close> is the
  outcome of \<open>re.match\<close> for the regular expression of pattern \<open>p\<close> on the string \<open>t\<close>,
  \<open>matched p m\<close> stands for \<open>Bricks.flatten(self._matchPart(match[0]))\<close> and
  \<open>prepareForInsertion p r c\<close> is the list of rows built from the records \<open>r\<close> for the id \<open>c\<close>.
\<close>

record ('f, 'p, 'm, 'r) patterns =
  structs :: "'f \<Rightarrow> 'p list"
  re_match :: "'p \<Rightarrow> string \<Rightarrow> 'm option"
  matched :: "'p \<Rightarrow> 'm \<Rightarrow> 'r"
  prepareForInsertion :: "'p \<Rightarrow> 'r \<Rightarrow> cid \<Rightarrow> row list"

text \<open>
  \<open>Pattern.match\<close>. The text goes to \<open>re.match\<close> as it is, and \<open>re.match\<close> raises \<open>TypeError\<close>
  for a text that is \<open>None\<close>.
\<close>

definition Pattern_match ::
  "('f, 'p, 'm, 'r) patterns \<Rightarrow> 'p \<Rightarrow> string option \<Rightarrow> py_error + 'r option" where
  "Pattern_match env p text =
     (case text of
        None \<Rightarrow> Inl TypeError
      | Some t \<Rightarrow>
          (case re_match env p t of
             None \<Rightarrow> Inr None
           | Some m \<Rightarrow> Inr (Some (matched env p m))))"

text \<open>
  The loop of \<open>_parseText\<close>: the patterns are tried in order until one gives a result that
  is not \<open>None\<close>.
\<close>

fun parseText_loop ::
  "('f, 'p, 'm, 'r) patterns \<Rightarrow> 'p list \<Rightarrow> string option \<Rightarrow> py_error + ('p \<times> 'r) option" where
  "parseText_loop env [] content = Inr None"
| "parseText_loop env (p # ps) content =
     (case Pattern_match env p content of
        Inl e \<Rightarrow> Inl e
      | Inr None \<Rightarrow> parseText_loop env ps content
      | Inr (Some r) \<Rightarrow> Inr (Some (p, r)))"

definition parseText ::
  "('f, 'p, 'm, 'r) patterns \<Rightarrow> legi_text \<Rightarrow> 'f \<Rightarrow> py_error + parsed" where
  "parseText env text criteria =
     (case parseText_loop env (structs env criteria) (t_content text) of
        Inl e \<Rightarrow> Inl e
      | Inr None \<Rightarrow> Inr (Failure (t_cid text))
      | Inr (Some (p, r)) \<Rightarrow>
          Inr (Success (t_cid text) (t_publicationDate text div 1000)
                 (prepareForInsertion env p r (t_cid text))))"

section \<open>converter.py: the Coordinator\<close>

text \<open>
  The members of \<open>_commandsSet\<close>: the string \<open>"wait"\<close>, there as long as orders are accepted,
  and the search filters whose listing is not yet closed.
\<close>

datatype 'f command = Wait | Filter 'f

text \<open>The messages of the control connection: \<open>Markers.END\<close> or a search filter.\<close>

datatype 'f ctrl_msg = CEnd | CFilter 'f

text \<open>
  The state of a \<open>Middleman\<close>: its set and its dictionary (the keys in the order of their
  insertion), and the messages it has sent on each of its three connections.
\<close>

record 'f middleman =
  commandsSet :: "'f command set"
  commandsDict :: "(cid \<times> 'f) list"
  toLegi :: "'f legi_order list"
  toDb :: "db_order list"
  fromCommand :: "'f ctrl_msg list"

text \<open>\<open>Middleman._continue\<close>.\<close>

definition continue :: "'f middleman \<Rightarrow> bool" where
  "continue s \<longleftrightarrow> commandsSet s \<noteq> {} \<or> commandsDict s \<noteq> []"

text \<open>
  \<open>Middleman._handleOrder\<close> on the messages waiting on the control connection: they are read
  as long as \<open>"wait"\<close> is in the set.
\<close>

fun handleOrder :: "'f ctrl_msg list \<Rightarrow> 'f middleman \<Rightarrow> 'f middleman" where
  "handleOrder [] s = s"
| "handleOrder (message # ms) s =
     (if Wait \<in> commandsSet s then
        handleOrder ms
          (case message of
             CEnd \<Rightarrow> s\<lparr>commandsSet := commandsSet s - {Wait}\<rparr>
           | CFilter f \<Rightarrow>
               s\<lparr>commandsSet := insert (Filter f) (commandsSet s),
                 toLegi := toLegi s @ [ListOrder f]\<rparr>)
      else s)"

text \<open>
  \<open>Middleman._handleLegiMsg\<close> on the messages waiting on the Legifrance connection. An
  exception ends the Coordinator; the state it leaves holds what had been sent before.
\<close>

fun handleLegiMsg ::
  "('f, 'p, 'm, 'r) patterns \<Rightarrow> 'f legi_msg list \<Rightarrow> 'f middleman \<Rightarrow>
   (py_error \<times> 'f middleman) + 'f middleman" where
  "handleLegiMsg env [] s = Inr s"
| "handleLegiMsg env (LEnd f # ms) s =
     (if Filter f \<in> commandsSet s
      then handleLegiMsg env ms (s\<lparr>commandsSet := commandsSet s - {Filter f}\<rparr>)
      else Inl (KeyError, s))"
| "handleLegiMsg env (LTextList f cids # ms) s =
     (let s1 = s\<lparr>toDb := toDb s @ [OTextList (Many cids)]\<rparr> in
      case cids of
        [] \<Rightarrow> Inl (IndexError, s1)
      | c # cs \<Rightarrow> handleLegiMsg env ms (s1\<lparr>commandsDict := AList.update c f (commandsDict s1)\<rparr>))"
| "handleLegiMsg env (LText text # ms) s =
     (case map_of (commandsDict s) (t_cid text) of
        None \<Rightarrow> Inl (KeyError, s)
      | Some criteria \<Rightarrow>
          (case parseText env text criteria of
             Inl e \<Rightarrow> Inl (e, s)
           | Inr parsed \<Rightarrow> handleLegiMsg env ms (s\<lparr>toDb := toDb s @ [OText (One parsed)]\<rparr>)))"

text \<open>\<open>Middleman._handleDbMsg\<close> on the messages waiting on the database connection.\<close>

fun handleDbMsg ::
  "db_msg list \<Rightarrow> 'f middleman \<Rightarrow> (py_error \<times> 'f middleman) + 'f middleman" where
  "handleDbMsg [] s = Inr s"
| "handleDbMsg (DbEnd # ms) s = handleDbMsg ms s"
| "handleDbMsg (DbTextList refCid cids # ms) s =
     (case map_of (commandsDict s) refCid of
        None \<Rightarrow> Inl (KeyError, s)
      | Some criteria \<Rightarrow>
          (let s1 = s\<lparr>commandsDict := AList.delete refCid (commandsDict s)\<rparr> in
           if cids \<noteq> [] then
             handleDbMsg ms
               (s1\<lparr>commandsDict := fold (\<lambda>c d. AList.update c criteria d) cids (commandsDict s1),
                   toLegi := toLegi s1 @ [TextOrder (Many cids)]\<rparr>)
           else handleDbMsg ms s1))"
| "handleDbMsg (DbText c # ms) s =
     (case map_of (commandsDict s) c of
        None \<Rightarrow> Inl (KeyError, s)
      | Some criteria \<Rightarrow> handleDbMsg ms (s\<lparr>commandsDict := AList.delete c (commandsDict s)\<rparr>))"

text \<open>
  The messages that are waiting on the three connections when \<open>connection.wait\<close> returns in
  one turn of the loop.
\<close>

record 'f arrivals =
  onCommand :: "'f ctrl_msg list"
  onLegi :: "'f legi_msg list"
  onDb :: "db_msg list"

text \<open>One turn of the loop of \<open>Middleman.__init__\<close> after the wait.\<close>

definition turn ::
  "('f, 'p, 'm, 'r) patterns \<Rightarrow> 'f arrivals \<Rightarrow> 'f middleman \<Rightarrow>
   (py_error \<times> 'f middleman) + 'f middleman" where
  "turn env a s =
     (case handleLegiMsg env (onLegi a) (handleOrder (onCommand a) s) of
        Inl e \<Rightarrow> Inl e
      | Inr s1 \<Rightarrow> handleDbMsg (onDb a) s1)"

text \<open>The statements after the loop: the shutdown signals and the report of completion.\<close>

definition shutdown :: "'f middleman \<Rightarrow> 'f middleman" where
  "shutdown s =
     s\<lparr>toLegi := toLegi s @ [LegiEnd], toDb := toDb s @ [OEnd],
       fromCommand := fromCommand s @ [CEnd]\<rparr>"

text \<open>
  The loop of \<open>Middleman.__init__\<close>, given what arrives at each wait. When the loop is to go
  on and nothing arrives any more, the Coordinator waits for ever: the value is \<open>None\<close>.
\<close>

fun Middleman_loop ::
  "('f, 'p, 'm, 'r) patterns \<Rightarrow> 'f arrivals list \<Rightarrow> 'f middleman \<Rightarrow>
   ((py_error \<times> 'f middleman) + 'f middleman) option" where
  "Middleman_loop env [] s = (if continue s then None else Some (Inr (shutdown s)))"
| "Middleman_loop env (a # rest) s =
     (if continue s then
        (case turn env a s of
           Inl e \<Rightarrow> Some (Inl e)
         | Inr s1 \<Rightarrow> Middleman_loop env rest s1)
      else Some (Inr (shutdown s)))"

definition Middleman_init :: "'f middleman" where
  "Middleman_init =
     \<lparr>commandsSet = {Wait}, commandsDict = [], toLegi = [], toDb = [], fromCommand = []\<rparr>"

definition Middleman ::
  "('f, 'p, 'm, 'r) patterns \<Rightarrow> 'f arrivals list \<Rightarrow>
   ((py_error \<times> 'f middleman) + 'f middleman) option" where
  "Middleman env sched = Middleman_loop env sched Middleman_init"

section \<open>Vocabulary of the properties\<close>

text \<open>
  The number of results that the remote listing \<open>search\<close> has returned on its pages \<open>1\<close> to
  \<open>n\<close>.
\<close>

primrec returned :: "(nat \<Rightarrow> search_response) \<Rightarrow> nat \<Rightarrow> int" where
  "returned search 0 = 0"
| "returned search (Suc n) = returned search n + int (length (sr_results (search (Suc n))))"


text \<open>
  A timing in which time does not run backwards and the clock reading for the sleep comes
  at most one second after the first reading.
\<close>

definition brisk :: "timing \<Rightarrow> bool" where
  "brisk tm \<longleftrightarrow>
     0 \<le> to_sleep tm \<and> to_sleep tm \<le> 1 \<and> 0 \<le> to_check tm \<and> 0 \<le> to_append tm \<and>
     0 \<le> late tm"


text \<open>
  A small set of filters and patterns to run the Coordinator on: the filter \<open>TAFilter\<close> has
  one pattern, which matches the texts that begin with it.
\<close>

definition sample_patterns :: "(string, string, string, string list) patterns" where
  "sample_patterns =
     \<lparr>structs = (\<lambda>f. if f = ''TAFilter'' then [''<table>''] else []),
      re_match = (\<lambda>p t. if take (length p) t = p then Some t else None),
      matched = (\<lambda>p m. [m]),
      prepareForInsertion = (\<lambda>p r c. map (\<lambda>x. [PStr c, PStr x]) r)\<rparr>"

section \<open>Verification: the connection manager\<close>

lemma conn_inv_init: "conn_inv DbConnector_init"
  by (simp add: conn_inv_def DbConnector_init_def)

lemma conn_inv_in_block: "conn_inv in_block"
  by (simp add: conn_inv_def in_block_def)

lemma enter_init: "connect_ok db \<Longrightarrow> enter db DbConnector_init = Inr in_block"
  by (simp add: enter_def DbConnector_init_def in_block_def Let_def)

lemma enter_ok:
  assumes "conn_inv s" and "0 < nesting s \<or> connect_ok db"
  shows "\<exists>s1. enter db s = Inr s1 \<and> conn_inv s1 \<and> 0 < nesting s1 \<and>
           nesting s1 = nesting s + 1 \<and>
           (if nesting s = 0
            then connection s1 = Some (connects s) \<and> connects s1 = connects s + 1
            else connection s1 = connection s \<and> connects s1 = connects s) \<and>
           exits s1 = exits s \<and> committed s1 = committed s \<and> sent s1 = sent s \<and>
           queried s1 = queried s \<and> pending s1 = pending s"
  using assms by (auto simp: enter_def conn_inv_def Let_def)

lemma exit_conn_ok:
  assumes "conn_inv s" and "0 < nesting s" and "1 < nesting s \<or> exit_ok db"
  shows "\<exists>s'. exit_conn db exc s = Inr s' \<and> conn_inv s' \<and> nesting s' = nesting s - 1 \<and>
           (if nesting s = 1
            then connection s' = None \<and> exits s' = exits s + 1
            else connection s' = connection s \<and> exits s' = exits s) \<and>
           connects s' = connects s \<and> sent s' = sent s \<and> queried s' = queried s"
proof (cases "nesting s = 1")
  case True
  then obtain h where "connection s = Some h" using assms(1) by (auto simp: conn_inv_def)
  then show ?thesis using True assms
    by (auto simp: exit_conn_def Let_def conn_inv_def connection_exit_def)
next
  case False
  then show ?thesis using assms
    by (auto simp: exit_conn_def Let_def conn_inv_def)
qed

lemma run_block_depth:
  "conn_inv s \<Longrightarrow> 0 < nesting s \<or> connect_ok db \<and> exit_ok db \<Longrightarrow>
     \<exists>s'. run_block db b s = Inr ((), s') \<and> conn_inv s' \<and>
       nesting s' = nesting s \<and> connection s' = connection s \<and>
       connects s' = connects s + (if nesting s = 0 then 1 else 0) \<and>
       exits s' = exits s + (if nesting s = 0 then 1 else 0)"
  and run_blocks_depth:
  "conn_inv s \<Longrightarrow> 0 < nesting s \<Longrightarrow>
     \<exists>s'. run_blocks db bs s = Inr ((), s') \<and> conn_inv s' \<and>
       nesting s' = nesting s \<and> connection s' = connection s \<and>
       connects s' = connects s \<and> exits s' = exits s"
proof (induction db b s and db bs s rule: run_block_run_blocks.induct)
  case (1 db bs s)
  from enter_ok[OF 1(2), of db] 1(3) obtain s1 where
    s1: "enter db s = Inr s1" "conn_inv s1" "0 < nesting s1" "nesting s1 = nesting s + 1"
      "if nesting s = 0
       then connection s1 = Some (connects s) \<and> connects s1 = connects s + 1
       else connection s1 = connection s \<and> connects s1 = connects s"
      "exits s1 = exits s"
    by blast
  from 1(1)[OF s1(2,3)] obtain s2 where
    s2: "run_blocks db bs s1 = Inr ((), s2)" "conn_inv s2"
      "nesting s2 = nesting s1" "connection s2 = connection s1"
      "connects s2 = connects s1" "exits s2 = exits s1"
    by blast
  have n2: "0 < nesting s2" using s2(3) s1(3) by simp
  have x: "1 < nesting s2 \<or> exit_ok db" using 1(3) s2(3) s1(4) by auto
  from exit_conn_ok[OF s2(2) n2 x, of False] obtain s3 where
    s3: "exit_conn db False s2 = Inr s3" "conn_inv s3" "nesting s3 = nesting s2 - 1"
      "if nesting s2 = 1
       then connection s3 = None \<and> exits s3 = exits s2 + 1
       else connection s3 = connection s2 \<and> exits s3 = exits s2"
      "connects s3 = connects s2"
    by blast
  have r: "run_block db (With bs) s = Inr ((), s3)"
    using s1(1) s2(1) s3(1) by (simp add: with_self_def leave_with_def)
  show ?case
  proof (cases "nesting s = 0")
    case True
    then have "connection s = None" using 1(2) by (simp add: conn_inv_def)
    then show ?thesis using True r s1 s2 s3 by simp
  next
    case False
    then have "nesting s2 \<noteq> 1" using s2(3) s1(4) 1(2) by (simp add: conn_inv_def)
    then show ?thesis using False r s1 s2 s3 by simp
  qed
next
  case (2 db s)
  then show ?case by simp
next
  case (3 db b bs s)
  from 3(1)[OF 3(3)] 3(4) obtain s1 where s1: "run_block db b s = Inr ((), s1)" "conn_inv s1"
    "nesting s1 = nesting s" "connection s1 = connection s"
    "connects s1 = connects s" "exits s1 = exits s" by auto
  have "0 < nesting s1" using s1 3(4) by simp
  from 3(2)[OF _ _ s1(2) this] s1 show ?case by auto
qed

text \<open>
  C10, as stated, fails: when \<open>psycopg2.connect\<close> raises in a new connector, the counter
  stays at one without a connection, and a later \<open>with\<close>-block on the connector runs at
  depth two, opens nothing and still has no connection.
\<close>

theorem refused_connection_breaks_invariant:
  "conn_inv (DbConnector_init :: nat db_state) \<and>
   enter \<lparr>connect_ok = False, exit_ok = True, accepts = (\<lambda>w. True), commit_ok = True\<rparr>
     (DbConnector_init :: nat db_state) =
     Inl (DatabaseError,
          \<lparr>connection = None, nesting = 1, connects = 0, exits = 0,
           pending = [], committed = [], queried = [], sent = []\<rparr>) \<and>
   \<not> conn_inv (\<lparr>connection = None, nesting = 1, connects = 0, exits = 0,
           pending = [], committed = [], queried = [], sent = []\<rparr> :: nat db_state) \<and>
   enter \<lparr>connect_ok = True, exit_ok = True, accepts = (\<lambda>w. True), commit_ok = True\<rparr>
     (\<lparr>connection = None, nesting = 1, connects = 0, exits = 0,
           pending = [], committed = [], queried = [], sent = []\<rparr> :: nat db_state) =
     Inr \<lparr>connection = None, nesting = 2, connects = 0, exits = 0,
           pending = [], committed = [], queried = [], sent = []\<rparr>"
  by (simp add: conn_inv_def DbConnector_init_def enter_def Let_def)

text \<open>
  C10, amended. As long as \<open>psycopg2.connect\<close> and the \<open>__exit__\<close> of the connection return
  where they are called, that is, when the connector is used at depth zero, the connector
  is reentrant and keeps the invariant that it holds a connection exactly when the nesting
  counter is positive. From any state with the invariant: entering returns and keeps it;
  entering at depth zero opens one new connection and entering deeper keeps the connection
  at hand and opens none; leaving the block just entered calls the \<open>__exit__\<close> of the
  connection, which ends its transaction, and clears the connection exactly when that
  block was the outermost one, and otherwise leaves the connection as it was; and any
  nesting of \<open>with\<close>-blocks runs without error, comes back to the depth and connection it
  started from, and has opened one connection and left it once if it started at depth
  zero, and none otherwise.
\<close>

theorem DbConnector_reentrant:
  assumes "conn_inv s" and "0 < nesting s \<or> connect_ok db \<and> exit_ok db"
  shows "\<exists>s1. enter db s = Inr s1 \<and> conn_inv s1 \<and>
         (if nesting s = 0
          then connection s1 = Some (connects s) \<and> connects s1 = connects s + 1
          else connection s1 = connection s \<and> connects s1 = connects s) \<and>
         (\<exists>s'. exit_conn db exc s1 = Inr s' \<and> conn_inv s' \<and> nesting s' = nesting s \<and>
            (if nesting s = 0
             then connection s' = None \<and> exits s' = exits s + 1
             else connection s' = connection s \<and> exits s' = exits s)) \<and>
         (\<exists>s'. run_block db b s = Inr ((), s') \<and> conn_inv s' \<and>
            nesting s' = nesting s \<and> connection s' = connection s \<and>
            connects s' = connects s + (if nesting s = 0 then 1 else 0) \<and>
            exits s' = exits s + (if nesting s = 0 then 1 else 0))"
proof -
  have c: "0 < nesting s \<or> connect_ok db" using assms(2) by blast
  from enter_ok[OF assms(1) c] obtain s1 where
    s1: "enter db s = Inr s1" "conn_inv s1" "0 < nesting s1" "nesting s1 = nesting s + 1"
      "if nesting s = 0
       then connection s1 = Some (connects s) \<and> connects s1 = connects s + 1
       else connection s1 = connection s \<and> connects s1 = connects s"
      "exits s1 = exits s"
    by blast
  have x: "1 < nesting s1 \<or> exit_ok db" using assms s1(4) by (auto simp: conn_inv_def)
  from exit_conn_ok[OF s1(2,3) x, of exc] obtain s' where
    s': "exit_conn db exc s1 = Inr s'" "conn_inv s'" "nesting s' = nesting s1 - 1"
      "if nesting s1 = 1
       then connection s' = None \<and> exits s' = exits s1 + 1
       else connection s' = connection s1 \<and> exits s' = exits s1"
    by blast
  have e: "\<exists>s'. exit_conn db exc s1 = Inr s' \<and> conn_inv s' \<and> nesting s' = nesting s \<and>
            (if nesting s = 0
             then connection s' = None \<and> exits s' = exits s + 1
             else connection s' = connection s \<and> exits s' = exits s)"
  proof (cases "nesting s = 0")
    case True
    then show ?thesis using s' s1 by auto
  next
    case False
    then have "nesting s1 \<noteq> 1" using s1(4) by simp
    then show ?thesis using False s' s1 by auto
  qed
  from s1(1,2,5) e run_block_depth[OF assms, of b] show ?thesis by blast
qed

theorem DbConnector_reentrant_witness:
  "conn_inv (DbConnector_init :: nat db_state) \<and>
   enter db_fine (DbConnector_init :: nat db_state) = Inr in_block \<and>
   conn_inv (in_block :: nat db_state) \<and>
   (\<exists>s'. run_block db_fine (With [With [], With [With []]]) (DbConnector_init :: nat db_state) =
            Inr ((), s') \<and>
          nesting s' = 0 \<and> connection s' = None \<and> connects s' = 1 \<and> exits s' = 1) \<and>
   (\<exists>s'. run_block \<lparr>connect_ok = False, exit_ok = False, accepts = (\<lambda>w. True), commit_ok = True\<rparr>
            (With [With []]) (in_block :: nat db_state) = Inr ((), s') \<and>
          nesting s' = 1 \<and> connection s' = Some 0 \<and> connects s' = 1 \<and> exits s' = 0)"
proof -
  let ?i = "DbConnector_init :: nat db_state"
  let ?b = "in_block :: nat db_state"
  let ?bad = "\<lparr>connect_ok = False, exit_ok = False, accepts = (\<lambda>w. True), commit_ok = True\<rparr>"
  have i: "nesting ?i = 0" "connection ?i = None" "connects ?i = 0" "exits ?i = 0"
    by (simp_all add: DbConnector_init_def)
  have b: "nesting ?b = 1" "connection ?b = Some 0" "connects ?b = 1" "exits ?b = 0"
    by (simp_all add: in_block_def)
  note c0 = conn_inv_init [where ?'a = nat]
  note c1 = conn_inv_in_block [where ?'a = nat]
  have h0: "0 < nesting ?i \<or> connect_ok db_fine \<and> exit_ok db_fine"
    by (simp add: db_fine_def)
  have h1: "0 < nesting ?b \<or> connect_ok ?bad \<and> exit_ok ?bad"
    by (simp add: b)
  from DbConnector_reentrant [OF c0 h0, of False "With [With [], With [With []]]"]
  have a: "\<exists>s'. run_block db_fine (With [With [], With [With []]]) ?i = Inr ((), s') \<and>
          nesting s' = 0 \<and> connection s' = None \<and> connects s' = 1 \<and> exits s' = 1"
    by (auto simp add: i simp del: run_block.simps)
  from DbConnector_reentrant [OF c1 h1, of False "With [With []]"]
  have d: "\<exists>s'. run_block ?bad (With [With []]) ?b = Inr ((), s') \<and>
          nesting s' = 1 \<and> connection s' = Some 0 \<and> connects s' = 1 \<and> exits s' = 0"
    by (auto simp add: b simp del: run_block.simps)
  have e: "enter db_fine ?i = Inr in_block"
    by (rule enter_init) (simp add: db_fine_def)
  from a d e c0 c1 show ?thesis by blast
qed

section \<open>Verification: the Store Agent\<close>

lemma executeAndFetch_ok:
  assumes "conn_inv s" and "0 < nesting s \<or> connect_ok db \<and> exit_ok db"
  shows "\<exists>s1. executeAndFetch db known q a s = Inr (known a, s1) \<and> conn_inv s1 \<and>
           nesting s1 = nesting s \<and> queried s1 = queried s @ [a] \<and> sent s1 = sent s"
proof -
  have c: "0 < nesting s \<or> connect_ok db" using assms(2) by blast
  from enter_ok[OF assms(1) c] obtain s1 where
    s1: "enter db s = Inr s1" "conn_inv s1" "0 < nesting s1" "nesting s1 = nesting s + 1"
      "sent s1 = sent s" "queried s1 = queried s"
    by blast
  then obtain h where h: "connection s1 = Some h" by (auto simp: conn_inv_def)
  let ?s2 = "s1\<lparr>queried := queried s1 @ [a]\<rparr>"
  have s2: "conn_inv ?s2" "0 < nesting ?s2" using s1 by (simp_all add: conn_inv_def)
  have x: "1 < nesting ?s2 \<or> exit_ok db" using assms s1(4) by (auto simp: conn_inv_def)
  from exit_conn_ok[OF s2 x, of False] obtain s3 where
    s3: "exit_conn db False ?s2 = Inr s3" "conn_inv s3" "nesting s3 = nesting ?s2 - 1"
      "sent s3 = sent ?s2" "queried s3 = queried ?s2"
    by blast
  have "executeAndFetch db known q a s = Inr (known a, s3)"
    using s1(1) h s3(1) by (simp add: executeAndFetch_def with_self_def leave_with_def)
  then show ?thesis using s3 s1 by simp
qed

lemma checkIfKnown_loop_ok:
  "conn_inv s \<Longrightarrow> 0 < nesting s \<or> connect_ok db \<and> exit_ok db \<Longrightarrow>
   \<exists>s'. checkIfKnown_loop db known q (length pre) (pre @ map Some rest) s =
          Inr (pre @ map (\<lambda>c. if known (Some c) then None else Some c) rest, s') \<and>
        conn_inv s' \<and> queried s' = queried s @ map Some rest \<and> sent s' = sent s"
proof (induction rest arbitrary: pre s)
  case Nil
  then show ?case by (simp add: checkIfKnown_loop.simps)
next
  case (Cons c rest)
  from executeAndFetch_ok[OF Cons(2,3), of known q "Some c"] obtain s1 where
    s1: "executeAndFetch db known q (Some c) s = Inr (known (Some c), s1)" "conn_inv s1"
    "nesting s1 = nesting s" "queried s1 = queried s @ [Some c]" "sent s1 = sent s"
    by auto
  have n1: "0 < nesting s1 \<or> connect_ok db \<and> exit_ok db" using Cons(3) s1(3) by simp
  let ?x = "if known (Some c) then None else Some c"
  have upd: "(if known (Some c) then (pre @ map Some (c # rest))[length pre := None]
             else pre @ map Some (c # rest)) = (pre @ [?x]) @ map Some rest"
    by (simp add: list_update_append)
  from Cons(1)[OF s1(2) n1, of "pre @ [?x]"] obtain s' where
    s': "checkIfKnown_loop db known q (length (pre @ [?x])) ((pre @ [?x]) @ map Some rest) s1 =
          Inr ((pre @ [?x]) @ map (\<lambda>c. if known (Some c) then None else Some c) rest, s')"
     "conn_inv s'" "queried s' = queried s1 @ map Some rest" "sent s' = sent s1"
    by auto
  have "checkIfKnown_loop db known q (length pre) (pre @ map Some (c # rest)) s =
        checkIfKnown_loop db known q (length pre + 1) ((pre @ [?x]) @ map Some rest) s1"
    apply (subst checkIfKnown_loop.simps)
    using s1(1) upd by (simp add: nth_append)
  then show ?case using s' s1 by auto
qed

lemma filter_unknown:
  "map the (filter (\<lambda>x. x \<noteq> None) (map (\<lambda>c. if known (Some c) then None else Some c) cids)) =
   filter (\<lambda>c. \<not> known (Some c)) cids"
  by (induction cids) auto

text \<open>
  C7. For a batch of ids that is not empty (one id, or a list with first id \<open>c\<close>), given to
  \<open>_checkIfKnown\<close> on a connector in a consistent state (inside a connection block, as in
  the Store Agent, or outside one with a database that opens and ends connections), the
  Store Agent asks the database about every id, in the order of the batch, and sends
  exactly one message: the first id of the batch together with the ids that the database
  does not know, in the order of the batch. The list of unknown ids may be empty; the
  message is sent all the same.
\<close>

theorem checkIfKnown_reply:
  assumes "as_list arg = c # cs" and "conn_inv s"
    and "0 < nesting s \<or> connect_ok db \<and> exit_ok db"
  shows "\<exists>s'. checkIfKnown db query known arg s = Inr ((), s') \<and>
           sent s' = sent s @ [DbTextList c (filter (\<lambda>x. \<not> known (Some x)) (c # cs))] \<and>
           queried s' = queried s @ map Some (c # cs)"
proof -
  from checkIfKnown_loop_ok[OF assms(2,3), of known "query selectCid" "[]" "c # cs"]
  obtain s1 where s1: "checkIfKnown_loop db known (query selectCid) 0 (map Some (c # cs)) s =
          Inr (map (\<lambda>c. if known (Some c) then None else Some c) (c # cs), s1)"
     "queried s1 = queried s @ map Some (c # cs)" "sent s1 = sent s"
    by auto
  show ?thesis
    unfolding checkIfKnown_def assms(1) using s1 filter_unknown[of known "c # cs"]
    by simp
qed

theorem checkIfKnown_reply_witness:
  "as_list (Many [''A'', ''B'', ''C'']) = ''A'' # [''B'', ''C''] \<and>
   conn_inv (in_block :: db_msg db_state) \<and>
   (\<exists>s'. checkIfKnown db_fine (\<lambda>q. ''EXECUTE selectCid (%s)'')
            (\<lambda>x. x = Some ''A'' \<or> x = Some ''C'') (Many [''A'', ''B'', ''C'']) in_block =
            Inr ((), s') \<and>
          sent s' = [DbTextList ''A'' [''B'']] \<and>
          queried s' = [Some ''A'', Some ''B'', Some ''C'']) \<and>
   (\<exists>s'. checkIfKnown db_fine (\<lambda>q. ''EXECUTE selectCid (%s)'') (\<lambda>x. True)
            (One ''A'') in_block = Inr ((), s') \<and>
          sent s' = [DbTextList ''A'' []] \<and> queried s' = [Some ''A''])"
proof -
  have h1: "as_list (Many [''A'', ''B'', ''C'']) = ''A'' # [''B'', ''C'']" by simp
  have h2: "as_list (One ''A'') = ''A'' # []" by simp
  have i: "sent (in_block :: db_msg db_state) = []" "queried (in_block :: db_msg db_state) = []"
    by (simp_all add: in_block_def)
  note c = conn_inv_in_block [where ?'a = db_msg]
  have n: "0 < nesting (in_block :: db_msg db_state) \<or> connect_ok db_fine \<and> exit_ok db_fine"
    by (simp add: in_block_def)
  show ?thesis
    using checkIfKnown_reply [OF h1 c n,
        of "\<lambda>q. ''EXECUTE selectCid (%s)''" "\<lambda>x. x = Some ''A'' \<or> x = Some ''C''"]
      checkIfKnown_reply [OF h2 c n, of "\<lambda>q. ''EXECUTE selectCid (%s)''" "\<lambda>x. True"] c
    by (auto simp add: i)
qed

lemma only_pending_refl: "only_pending s s"
  by (simp add: only_pending_def)

lemma only_pending_trans: "only_pending s t \<Longrightarrow> only_pending t u \<Longrightarrow> only_pending s u"
  by (simp add: only_pending_def)

lemma only_pending_inv: "only_pending s t \<Longrightarrow> conn_inv s \<Longrightarrow> conn_inv t"
  by (simp add: only_pending_def conn_inv_def)

lemma cursor_execute_only_pending:
  "(\<exists>s1. cursor_execute db ws s = Inl (DatabaseError, s1) \<and> only_pending s s1 \<and>
          \<not> (\<forall>w. accepts db w)) \<or>
   (\<exists>s1. cursor_execute db ws s = Inr s1 \<and> only_pending s s1)"
proof (induction ws arbitrary: s)
  case Nil
  then show ?case by (simp add: only_pending_def)
next
  case (Cons w ws)
  show ?case
  proof (cases "accepts db w")
    case True
    have o: "only_pending s (s\<lparr>pending := pending s @ [w]\<rparr>)" by (simp add: only_pending_def)
    from Cons[of "s\<lparr>pending := pending s @ [w]\<rparr>"] True o show ?thesis
      by (auto dest: only_pending_trans)
  next
    case False
    then show ?thesis by (auto simp: only_pending_def)
  qed
qed

lemma executeMany_empty: "executeMany db h q [] s = Inr ((), s)"
  by (simp add: executeMany_def)

text \<open>Inside a connection block a call of \<open>executeMany\<close> touches the open transaction only.\<close>

lemma executeMany_unfold:
  "executeMany db h q (p0 # ps) s =
     with_self db
       (\<lambda>s1. case connection s1 of
                None \<Rightarrow> Inl (AttributeError, s1)
              | Some c \<Rightarrow>
                  (case cursor_execute db
                          ((if \<not> startswith (strip q) ''EXECUTE'' then [Prepare q] else []) @
                           [Batch (if \<not> startswith (strip q) ''EXECUTE''
                                   then ''EXECUTE stmt'' @ '' ('' @
                                        join '','' (map (\<lambda>x. ''%s'') [0 ..< length p0]) @ '')''
                                   else q) (p0 # ps)] @
                           (if \<not> startswith (strip q) ''EXECUTE'' then [Deallocate] else [])) s1 of
                     Inl e \<Rightarrow> Inl e
                   | Inr s2 \<Rightarrow> if h then Inr ((), s2) else Inl (AttributeError, s2)))
       s"
  by (simp only: executeMany_def Let_def list.case)

lemma executeMany_depth:
  assumes "conn_inv s" and "0 < nesting s"
  shows "(\<exists>e s1. executeMany db h q params s = Inl (e, s1) \<and> only_pending s s1 \<and>
            params \<noteq> [] \<and> (e = AttributeError \<or> e = DatabaseError) \<and>
            ((\<forall>w. accepts db w) \<longrightarrow> e = AttributeError \<and> \<not> h)) \<or>
         (\<exists>s1. executeMany db h q params s = Inr ((), s1) \<and> only_pending s s1 \<and>
            (params = [] \<or> h))"
proof (cases params)
  case Nil
  then show ?thesis by (simp add: executeMany_def only_pending_def)
next
  case (Cons p0 ps)
  obtain c where c: "connection s = Some c" using assms by (auto simp: conn_inv_def)
  define s1 where "s1 = s\<lparr>nesting := nesting s + 1\<rparr>"
  define ws where "ws = (if \<not> startswith (strip q) ''EXECUTE'' then [Prepare q] else []) @
             [Batch (if \<not> startswith (strip q) ''EXECUTE''
                     then ''EXECUTE stmt'' @ '' ('' @
                          join '','' (map (\<lambda>x. ''%s'') [0 ..< length p0]) @ '')''
                     else q) (p0 # ps)] @
             (if \<not> startswith (strip q) ''EXECUTE'' then [Deallocate] else [])"
  have e: "enter db s = Inr s1" using assms(2) by (simp add: enter_def s1_def)
  have c1: "connection s1 = Some c" using c by (simp add: s1_def)
  have leave: "exit_conn db exc t = Inr (t\<lparr>nesting := nesting s\<rparr>)"
    if "only_pending s1 t" for t exc
    using that assms(2) by (simp add: exit_conn_def Let_def only_pending_def s1_def)
  have fin: "only_pending s (t\<lparr>nesting := nesting s\<rparr>)" if "only_pending s1 t" for t
    using that by (simp add: only_pending_def s1_def)
  have body: "executeMany db h q params s =
      leave_with db (case cursor_execute db ws s1 of
                       Inl e \<Rightarrow> Inl e
                     | Inr s2 \<Rightarrow> if h then Inr ((), s2) else Inl (AttributeError, s2))"
    unfolding Cons executeMany_unfold ws_def[symmetric] with_self_def e
    by (simp add: c1)
  from cursor_execute_only_pending[of db ws s1]
  show ?thesis
  proof
    assume "\<exists>t. cursor_execute db ws s1 = Inl (DatabaseError, t) \<and> only_pending s1 t \<and>
               \<not> (\<forall>w. accepts db w)"
    then obtain t where t: "cursor_execute db ws s1 = Inl (DatabaseError, t)"
      "only_pending s1 t" "\<not> (\<forall>w. accepts db w)" by blast
    have "executeMany db h q params s = Inl (DatabaseError, t\<lparr>nesting := nesting s\<rparr>)"
      unfolding body t(1) using leave[OF t(2), of True] by (simp add: leave_with_def)
    then show ?thesis using fin[OF t(2)] t(3) Cons by auto
  next
    assume "\<exists>t. cursor_execute db ws s1 = Inr t \<and> only_pending s1 t"
    then obtain t where t: "cursor_execute db ws s1 = Inr t" "only_pending s1 t" by blast
    show ?thesis
    proof (cases h)
      case True
      have "executeMany db h q params s = Inr ((), t\<lparr>nesting := nesting s\<rparr>)"
        unfolding body t(1) using leave[OF t(2), of False] True by (simp add: leave_with_def)
      then show ?thesis using fin[OF t(2)] True by auto
    next
      case False
      have "executeMany db h q params s = Inl (AttributeError, t\<lparr>nesting := nesting s\<rparr>)"
        unfolding body t(1) using leave[OF t(2), of True] False by (simp add: leave_with_def)
      then show ?thesis using fin[OF t(2)] False Cons by auto
    qed
  qed
qed

text \<open>
  Whatever the state of the connector, a call of \<open>executeMany\<close> that raises has committed
  and sent nothing, and as the class stands every call with parameters raises.
\<close>

lemma leave_with_error_keeps:
  "leave_with db r = Inl (e, s1) \<Longrightarrow>
     (r = Inl (x, u) \<or> r = Inr (y, u)) \<Longrightarrow>
     committed s1 = committed u \<and> sent s1 = sent u"
  by (auto simp: leave_with_def exit_conn_def connection_exit_def Let_def
      split: option.splits if_splits sum.splits)

lemma executeMany_error_keeps:
  assumes a: "executeMany db h q params s = Inl (e, s1)"
  shows "committed s1 = committed s \<and> sent s1 = sent s"
proof (cases params)
  case Nil
  then show ?thesis using a by (simp add: executeMany_def)
next
  case (Cons p0 ps)
  define ws where "ws = (if \<not> startswith (strip q) ''EXECUTE'' then [Prepare q] else []) @
             [Batch (if \<not> startswith (strip q) ''EXECUTE''
                     then ''EXECUTE stmt'' @ '' ('' @
                          join '','' (map (\<lambda>x. ''%s'') [0 ..< length p0]) @ '')''
                     else q) (p0 # ps)] @
             (if \<not> startswith (strip q) ''EXECUTE'' then [Deallocate] else [])"
  show ?thesis
  proof (cases "enter db s")
    case (Inl x)
    then have "x = (e, s1)"
      using a unfolding Cons executeMany_unfold with_self_def by simp
    then show ?thesis using Inl by (auto simp: enter_def Let_def split: if_splits)
  next
    case (Inr t)
    have t: "committed t = committed s" "sent t = sent s"
      using Inr by (auto simp: enter_def Let_def split: if_splits)
    define r where "r = (case connection t of
                None \<Rightarrow> Inl (AttributeError, t)
              | Some c \<Rightarrow>
                  (case cursor_execute db ws t of
                     Inl e \<Rightarrow> Inl e
                   | Inr s2 \<Rightarrow> if h then Inr ((), s2) else Inl (AttributeError, s2)))"
    have l: "leave_with db r = Inl (e, s1)"
      using a unfolding Cons executeMany_unfold with_self_def Inr ws_def[symmetric] r_def
      by simp
    from cursor_execute_only_pending[of db ws t]
    have "\<exists>x u. (r = Inl (x, u) \<or> r = Inr ((), u)) \<and>
            committed u = committed t \<and> sent u = sent t"
      unfolding r_def by (cases "connection t") (auto simp: only_pending_def)
    then obtain x u where u: "r = Inl (x, u) \<or> r = Inr ((), u)"
      "committed u = committed t" "sent u = sent t" by blast
    from leave_with_error_keeps[OF l u(1)] u t show ?thesis by simp
  qed
qed

lemma leave_with_Inl: "\<exists>e s1. leave_with db (Inl (x, u)) = Inl (e, s1)"
  by (auto simp: leave_with_def split: sum.splits)

lemma executeMany_code_raises:
  assumes "params \<noteq> []"
  shows "\<exists>e s1. executeMany db False q params s = Inl (e, s1)"
proof -
  obtain p0 ps where p: "params = p0 # ps" using assms by (cases params) auto
  define ws where "ws = (if \<not> startswith (strip q) ''EXECUTE'' then [Prepare q] else []) @
             [Batch (if \<not> startswith (strip q) ''EXECUTE''
                     then ''EXECUTE stmt'' @ '' ('' @
                          join '','' (map (\<lambda>x. ''%s'') [0 ..< length p0]) @ '')''
                     else q) (p0 # ps)] @
             (if \<not> startswith (strip q) ''EXECUTE'' then [Deallocate] else [])"
  show ?thesis
  proof (cases "enter db s")
    case (Inl x)
    then show ?thesis unfolding p executeMany_unfold with_self_def by (cases x) simp
  next
    case (Inr t)
    have "\<exists>x u. (case connection t of
                None \<Rightarrow> Inl (AttributeError, t)
              | Some c \<Rightarrow>
                  (case cursor_execute db ws t of
                     Inl e \<Rightarrow> Inl e
                   | Inr s2 \<Rightarrow> if False then Inr ((), s2) else Inl (AttributeError, s2))) =
            (Inl (x, u) :: (py_error \<times> 'a db_state) + (unit \<times> 'a db_state))"
      by (auto split: option.splits sum.splits)
    then obtain x u where "(case connection t of
                None \<Rightarrow> Inl (AttributeError, t)
              | Some c \<Rightarrow>
                  (case cursor_execute db ws t of
                     Inl e \<Rightarrow> Inl e
                   | Inr s2 \<Rightarrow> if False then Inr ((), s2) else Inl (AttributeError, s2))) =
            (Inl (x, u) :: (py_error \<times> 'a db_state) + (unit \<times> 'a db_state))" by blast
    then show ?thesis
      unfolding p executeMany_unfold with_self_def Inr ws_def[symmetric]
      using leave_with_Inl[of db x u] by simp
  qed
qed

lemma executeMany_code_AttributeError:
  assumes "params \<noteq> []" and "conn_inv s"
    and "connect_ok db" and "exit_ok db" and "\<forall>w. accepts db w"
  shows "\<exists>s1. executeMany db False q params s = Inl (AttributeError, s1)"
proof (cases "0 < nesting s")
  case True
  from executeMany_depth[OF assms(2) True, of db False q params] assms(1,5)
  show ?thesis by auto
next
  case False
  then have z: "nesting s = 0" "connection s = None" using assms(2) by (auto simp: conn_inv_def)
  obtain p0 ps where p: "params = p0 # ps" using assms(1) by (cases params) auto
  define t where "t = s\<lparr>nesting := 1, connection := Some (connects s), connects := connects s + 1\<rparr>"
  define ws where "ws = (if \<not> startswith (strip q) ''EXECUTE'' then [Prepare q] else []) @
             [Batch (if \<not> startswith (strip q) ''EXECUTE''
                     then ''EXECUTE stmt'' @ '' ('' @
                          join '','' (map (\<lambda>x. ''%s'') [0 ..< length p0]) @ '')''
                     else q) (p0 # ps)] @
             (if \<not> startswith (strip q) ''EXECUTE'' then [Deallocate] else [])"
  have e: "enter db s = Inr t" using z assms(3) by (simp add: enter_def Let_def t_def)
  have ct: "connection t = Some (connects s)" by (simp add: t_def)
  from cursor_execute_only_pending[of db ws t] assms(5)
  obtain u where u: "cursor_execute db ws t = Inr u" "only_pending t u" by auto
  have x: "exit_conn db True u =
          Inr ((connection_exit True (u\<lparr>nesting := 0\<rparr>))\<lparr>connection := None\<rparr>)"
    using u(2) assms(4) by (simp add: exit_conn_def Let_def only_pending_def t_def)
  show ?thesis
    unfolding p executeMany_unfold with_self_def e ws_def[symmetric]
    by (simp add: ct u(1) leave_with_def x)
qed

lemma storeText_code_raises:
  assumes "as_list arg \<noteq> []"
  shows "\<exists>e s1. storeText db False query arg s = Inl (e, s1) \<and>
           committed s1 = committed s \<and> sent s1 = sent s \<and>
           (conn_inv s \<and> connect_ok db \<and> exit_ok db \<and> (\<forall>w. accepts db w) \<longrightarrow>
              e = AttributeError)"
proof (cases "filter (\<lambda>t. \<not> success t) (as_list arg) = []")
  case True
  then have fs: "filter success (as_list arg) \<noteq> []" using assms(1)
    by (metis filter_False filter_True filter_empty_conv)
  let ?p = "map (\<lambda>x. [PStr (cid_of x), PInt (publicationDate x)]) (filter success (as_list arg))"
  have ne: "?p \<noteq> []" using fs by simp
  from executeMany_code_raises[OF ne, of db "query insertParsed" s]
  obtain e s1 where r: "executeMany db False (query insertParsed) ?p s = Inl (e, s1)" by blast
  have st: "storeText db False query arg s = Inl (e, s1)"
    using r True fs by (simp add: storeText_def Let_def)
  have "e = AttributeError"
    if "conn_inv s \<and> connect_ok db \<and> exit_ok db \<and> (\<forall>w. accepts db w)"
    using executeMany_code_AttributeError[OF ne, of s db "query insertParsed"] that r by auto
  then show ?thesis using st executeMany_error_keeps[OF r] by blast
next
  case False
  let ?p = "map (\<lambda>x. [PStr x]) (map cid_of (filter (\<lambda>t. \<not> success t) (as_list arg)))"
  have ne: "?p \<noteq> []" using False by simp
  from executeMany_code_raises[OF ne, of db "query insertFailed" s]
  obtain e s1 where r: "executeMany db False (query insertFailed) ?p s = Inl (e, s1)" by blast
  have st: "storeText db False query arg s = Inl (e, s1)"
    using r False by (simp add: storeText_def Let_def)
  have "e = AttributeError"
    if "conn_inv s \<and> connect_ok db \<and> exit_ok db \<and> (\<forall>w. accepts db w)"
    using executeMany_code_AttributeError[OF ne, of s db "query insertFailed"] that r by auto
  then show ?thesis using st executeMany_error_keeps[OF r] by blast
qed

text \<open>
  C5, as the code behaves. For every Persist call that carries at least one item, on a
  connector in a consistent state, \<open>_storeText\<close> does not return, whatever the database
  does: a batched insert raises, nothing is committed, and no acknowledgment and no
  End-of-batch message is sent. With a database that refuses nothing the exception is the
  \<open>AttributeError\<close> of the call of the undefined \<open>_executeMany\<close>.
\<close>

theorem storeText_never_acknowledges:
  assumes "as_list arg \<noteq> []" and "conn_inv s"
  shows "\<exists>e s1. storeText db False query arg s = Inl (e, s1) \<and>
           committed s1 = committed s \<and> sent s1 = sent s \<and>
           (connect_ok db \<and> exit_ok db \<and> (\<forall>w. accepts db w) \<longrightarrow> e = AttributeError)"
  using storeText_code_raises[OF assms(1), of db query s] assms(2) by blast

theorem storeText_never_acknowledges_witness:
  "as_list (One (Success ''B'' 1590000000 [[PStr ''B'', PStr ''r1'']])) \<noteq> [] \<and>
   conn_inv (in_block :: db_msg db_state) \<and>
   (\<exists>s1. storeText db_fine False (\<lambda>q. ''EXECUTE q'')
            (One (Success ''B'' 1590000000 [[PStr ''B'', PStr ''r1'']])) in_block =
            Inl (AttributeError, s1) \<and>
          committed s1 = [] \<and> sent s1 = [])"
proof -
  have h1: "as_list (One (Success ''B'' 1590000000 [[PStr ''B'', PStr ''r1'']])) \<noteq> []" by simp
  have i: "sent (in_block :: db_msg db_state) = []" "committed (in_block :: db_msg db_state) = []"
    by (simp_all add: in_block_def)
  have f: "connect_ok db_fine \<and> exit_ok db_fine \<and> (\<forall>w. accepts db_fine w)"
    by (simp add: db_fine_def)
  note c = conn_inv_in_block [where ?'a = db_msg]
  show ?thesis
    using storeText_never_acknowledges [OF h1 c, of db_fine "\<lambda>q. ''EXECUTE q''"] c f
    by (auto simp add: i)
qed

lemma commit_cases:
  "(\<exists>e. commit db s = Inl (e, s)) \<or>
   (\<exists>s1. commit db s = Inr ((), s1) \<and> sent s1 = sent s)"
  by (auto simp: commit_def split: option.splits)

lemma storeText_error_only_pending:
  assumes r: "storeText db h query arg s = Inl (e, s1)"
    and i: "conn_inv s" and n: "0 < nesting s"
  shows "only_pending s s1"
proof -
  let ?texts = "as_list arg"
  let ?succ = "filter success ?texts"
  let ?failure = "map cid_of (filter (\<lambda>t. \<not> success t) ?texts)"
  let ?r1 = "if ?failure \<noteq> []
             then executeMany db h (query insertFailed) (map (\<lambda>x. [PStr x]) ?failure) s
             else Inr ((), s)"
  have c1: "(\<exists>e t. ?r1 = Inl (e, t) \<and> only_pending s t) \<or>
            (\<exists>t. ?r1 = Inr ((), t) \<and> only_pending s t)"
    using executeMany_depth[OF i n, of db h "query insertFailed" "map (\<lambda>x. [PStr x]) ?failure"]
    by (auto simp: only_pending_refl)
  then show ?thesis
  proof
    assume "\<exists>e t. ?r1 = Inl (e, t) \<and> only_pending s t"
    then obtain e' t where t: "?r1 = Inl (e', t)" "only_pending s t" by blast
    have "storeText db h query arg s = Inl (e', t)"
      unfolding storeText_def Let_def t(1) by simp
    then show ?thesis using r t(2) by simp
  next
    assume "\<exists>t. ?r1 = Inr ((), t) \<and> only_pending s t"
    then obtain t1 where t1: "?r1 = Inr ((), t1)" "only_pending s t1" by blast
    have i1: "conn_inv t1" "0 < nesting t1"
      using t1(2) i n by (auto simp: only_pending_def conn_inv_def)
    let ?p2 = "map (\<lambda>x. [PStr (cid_of x), PInt (publicationDate x)]) ?succ"
    let ?r2 = "if ?succ \<noteq> []
               then (case executeMany db h (query insertParsed) ?p2 t1 of
                       Inl e \<Rightarrow> Inl e
                     | Inr (u2, s2) \<Rightarrow>
                         executeMany db h (query insertRecord) (concat (map data ?succ)) s2)
               else Inr ((), t1)"
    have st: "storeText db h query arg s =
         (case ?r2 of
            Inl e \<Rightarrow> Inl e
          | Inr (u3, s3) \<Rightarrow>
             (case commit db s3 of
                Inl e \<Rightarrow> Inl e
              | Inr (u4, s4) \<Rightarrow>
                  Inr ((), s4\<lparr>sent := sent s4 @ map (\<lambda>t. DbText (cid_of t)) ?texts @ [DbEnd]\<rparr>)))"
      unfolding storeText_def Let_def t1(1) by simp
    have c2: "(\<exists>e t. ?r2 = Inl (e, t) \<and> only_pending t1 t) \<or>
              (\<exists>t. ?r2 = Inr ((), t) \<and> only_pending t1 t)"
    proof (cases "?succ = []")
      case True
      then show ?thesis by (simp add: only_pending_refl)
    next
      case False
      from executeMany_depth[OF i1, of db h "query insertParsed" ?p2]
      show ?thesis
      proof
        assume "\<exists>e s1. executeMany db h (query insertParsed) ?p2 t1 = Inl (e, s1) \<and>
                  only_pending t1 s1 \<and> ?p2 \<noteq> [] \<and> (e = AttributeError \<or> e = DatabaseError) \<and>
                  ((\<forall>w. accepts db w) \<longrightarrow> e = AttributeError \<and> \<not> h)"
        then show ?thesis using False by auto
      next
        assume "\<exists>s1. executeMany db h (query insertParsed) ?p2 t1 = Inr ((), s1) \<and>
                  only_pending t1 s1 \<and> (?p2 = [] \<or> h)"
        then obtain t2 where t2: "executeMany db h (query insertParsed) ?p2 t1 = Inr ((), t2)"
          "only_pending t1 t2" by blast
        have i2: "conn_inv t2" "0 < nesting t2"
          using t2(2) i1 by (auto simp: only_pending_def conn_inv_def)
        from executeMany_depth[OF i2, of db h "query insertRecord" "concat (map data ?succ)"]
          t2 False
        show ?thesis by (auto dest: only_pending_trans)
      qed
    qed
    then show ?thesis
    proof
      assume "\<exists>e t. ?r2 = Inl (e, t) \<and> only_pending t1 t"
      then obtain e' t where t: "?r2 = Inl (e', t)" "only_pending t1 t" by blast
      have "storeText db h query arg s = Inl (e', t)" unfolding st t(1) by simp
      then show ?thesis using r t(2) t1(2) by (auto dest: only_pending_trans)
    next
      assume "\<exists>t. ?r2 = Inr ((), t) \<and> only_pending t1 t"
      then obtain t3 where t3: "?r2 = Inr ((), t3)" "only_pending t1 t3" by blast
      have st3: "storeText db h query arg s =
             (case commit db t3 of
                Inl e \<Rightarrow> Inl e
              | Inr (u4, s4) \<Rightarrow>
                  Inr ((), s4\<lparr>sent := sent s4 @ map (\<lambda>t. DbText (cid_of t)) ?texts @ [DbEnd]\<rparr>))"
        unfolding st t3(1) by simp
      from commit_cases[of db t3] show ?thesis
      proof
        assume "\<exists>e. commit db t3 = Inl (e, t3)"
        then obtain e' where "commit db t3 = Inl (e', t3)" by blast
        then have "storeText db h query arg s = Inl (e', t3)" unfolding st3 by simp
        then show ?thesis using r t3(2) t1(2) by (auto dest: only_pending_trans)
      next
        assume "\<exists>s1. commit db t3 = Inr ((), s1) \<and> sent s1 = sent t3"
        then obtain t4 where "commit db t3 = Inr ((), t4)" by blast
        then show ?thesis using r unfolding st3 by simp
      qed
    qed
  qed
qed

text \<open>
  C6, as stated, fails: the database refuses the batch of a Persist call of one failed
  item; the Store Agent then ends with the error of the database, its transaction rolled
  back, and has sent nothing at all: the Coordinator is told of no failure.
\<close>

theorem persist_failure_not_reported:
  "createDbManager
     \<lparr>connect_ok = True, exit_ok = True, accepts = (\<lambda>w. False), commit_ok = True\<rparr> False
     (\<lambda>q. ''EXECUTE q'') (\<lambda>c. False) (\<lambda>s. Inr ((), s))
     [OText (One (Failure ''C'')), OEnd] =
   Some (Inl (DatabaseError,
     \<lparr>connection = None, nesting = 0, connects = 1, exits = 1, pending = [],
      committed = [], queried = [], sent = []\<rparr>))"
  by (simp add: createDbManager_def storeText_def executeMany_def with_self_def leave_with_def
      enter_def exit_conn_def connection_exit_def DbConnector_init_def Let_def)

text \<open>
  C6, amended. If a Persist call raises while the Store Agent is inside its connection
  block, be it by an error of the database in a statement or in the commit, the agent's
  loop ends with that error whatever orders are still to come, nothing of the call has
  been committed (the statements it has executed so far are in the open transaction only)
  and no message has been sent for it (no acknowledgment, no End-of-batch, no report of the
  failure); leaving the connection block with the error commits nothing either, and, when
  the \<open>__exit__\<close> of the connection returns, rolls the open transaction back and clears the
  connection. This holds of the code, and it would hold as well if the call of
  \<open>_executeMany\<close> returned, so that a Persist call could get beyond its first batch.
\<close>

theorem storeText_error_aborts:
  assumes "storeText db has_executeMany query arg s = Inl (e, s1)"
    and "conn_inv s" and "nesting s = 1"
  shows "db_loop db has_executeMany query known (OText arg) rest s = Some (Inl (e, s1)) \<and>
         committed s1 = committed s \<and> sent s1 = sent s \<and>
         (\<exists>e' s2. leave_with db (Inl (e, s1) ::
                     (py_error \<times> db_msg db_state) + (unit \<times> db_msg db_state)) = Inl (e', s2) \<and>
              committed s2 = committed s \<and> sent s2 = sent s \<and> nesting s2 = 0 \<and>
              (exit_ok db \<longrightarrow> e' = e \<and> pending s2 = [] \<and> connection s2 = None))"
proof -
  have n: "0 < nesting s" using assms(3) by simp
  from storeText_error_only_pending[OF assms(1,2) n]
  have o: "only_pending s s1" .
  then obtain h where s1: "committed s1 = committed s" "sent s1 = sent s" "nesting s1 = 1"
    "connection s1 = Some h"
    using assms(2,3) by (auto simp: only_pending_def conn_inv_def)
  have "db_loop db has_executeMany query known (OText arg) rest s = Some (Inl (e, s1))"
    using assms(1) by simp
  moreover have "\<exists>e' s2. leave_with db (Inl (e, s1) ::
                     (py_error \<times> db_msg db_state) + (unit \<times> db_msg db_state)) = Inl (e', s2) \<and>
              committed s2 = committed s \<and> sent s2 = sent s \<and> nesting s2 = 0 \<and>
              (exit_ok db \<longrightarrow> e' = e \<and> pending s2 = [] \<and> connection s2 = None)"
    using s1 by (simp add: leave_with_def exit_conn_def Let_def connection_exit_def)
  ultimately show ?thesis using s1 by blast
qed

theorem storeText_error_aborts_witness:
  "storeText \<lparr>connect_ok = True, exit_ok = True,
              accepts = (\<lambda>w. w \<noteq> Batch ''EXECUTE p'' [[PStr ''B'', PInt 7]]), commit_ok = True\<rparr>
     True (\<lambda>q. if q = insertParsed then ''EXECUTE p'' else ''EXECUTE f'')
     (Many [Failure ''C'', Success ''B'' 7 []]) in_block =
     Inl (DatabaseError,
          \<lparr>connection = Some 0, nesting = 1, connects = 1, exits = 0,
           pending = [Batch ''EXECUTE f'' [[PStr ''C'']]],
           committed = [], queried = [], sent = []\<rparr>) \<and>
   conn_inv (in_block :: db_msg db_state) \<and> nesting (in_block :: db_msg db_state) = 1 \<and>
   leave_with \<lparr>connect_ok = True, exit_ok = True,
              accepts = (\<lambda>w. w \<noteq> Batch ''EXECUTE p'' [[PStr ''B'', PInt 7]]), commit_ok = True\<rparr>
     (Inl (DatabaseError,
          \<lparr>connection = Some 0, nesting = 1, connects = 1, exits = 0,
           pending = [Batch ''EXECUTE f'' [[PStr ''C'']]],
           committed = [], queried = [], sent = []\<rparr>) ::
        (py_error \<times> db_msg db_state) + (unit \<times> db_msg db_state)) =
     Inl (DatabaseError,
          \<lparr>connection = None, nesting = 0, connects = 1, exits = 1,
           pending = [], committed = [], queried = [], sent = []\<rparr>) \<and>
   storeText \<lparr>connect_ok = True, exit_ok = True,
              accepts = (\<lambda>w. w = Prepare ''INSERT q''), commit_ok = True\<rparr>
     False (\<lambda>q. ''INSERT q'') (One (Failure ''C'')) in_block =
     Inl (DatabaseError,
          \<lparr>connection = Some 0, nesting = 1, connects = 1, exits = 0,
           pending = [Prepare ''INSERT q''],
           committed = [], queried = [], sent = []\<rparr>) \<and>
   db_loop \<lparr>connect_ok = True, exit_ok = True,
              accepts = (\<lambda>w. w = Prepare ''INSERT q''), commit_ok = True\<rparr>
     False (\<lambda>q. ''INSERT q'') (\<lambda>c. False) (OText (One (Failure ''C''))) [OEnd] in_block =
     Some (Inl (DatabaseError,
          \<lparr>connection = Some 0, nesting = 1, connects = 1, exits = 0,
           pending = [Prepare ''INSERT q''],
           committed = [], queried = [], sent = []\<rparr>))"
proof -
  let ?db2 = "\<lparr>connect_ok = True, exit_ok = True,
              accepts = (\<lambda>w. w \<noteq> Batch ''EXECUTE p'' [[PStr ''B'', PInt 7]]), commit_ok = True\<rparr>"
  let ?q2 = "\<lambda>q. if q = insertParsed then ''EXECUTE p'' else ''EXECUTE f''"
  let ?s2 = "\<lparr>connection = Some 0, nesting = 1, connects = 1, exits = 0,
           pending = [Batch ''EXECUTE f'' [[PStr ''C'']]],
           committed = [], queried = [], sent = []\<rparr> :: db_msg db_state"
  let ?db1 = "\<lparr>connect_ok = True, exit_ok = True,
              accepts = (\<lambda>w. w = Prepare ''INSERT q''), commit_ok = True\<rparr>"
  let ?s1 = "\<lparr>connection = Some 0, nesting = 1, connects = 1, exits = 0,
           pending = [Prepare ''INSERT q''],
           committed = [], queried = [], sent = []\<rparr> :: db_msg db_state"
  have a: "storeText ?db2 True ?q2 (Many [Failure ''C'', Success ''B'' 7 []]) in_block =
             Inl (DatabaseError, ?s2)"
    by (simp add: storeText_def executeMany_def with_self_def leave_with_def strip_def
        startswith_def is_space_def enter_def exit_conn_def in_block_def Let_def)
  have b: "storeText ?db1 False (\<lambda>q. ''INSERT q'') (One (Failure ''C'')) in_block =
             Inl (DatabaseError, ?s1)"
    by (simp add: storeText_def executeMany_def with_self_def leave_with_def strip_def
        startswith_def is_space_def enter_def exit_conn_def in_block_def Let_def)
  have n: "nesting (in_block :: db_msg db_state) = 1" by (simp add: in_block_def)
  have i: "sent (in_block :: db_msg db_state) = []" "committed (in_block :: db_msg db_state) = []"
    by (simp_all add: in_block_def)
  note c = conn_inv_in_block [where ?'a = db_msg]
  from storeText_error_aborts [OF a c n, of "\<lambda>c. False" "[]"]
  obtain e' s2 where l: "leave_with ?db2 (Inl (DatabaseError, ?s2) ::
        (py_error \<times> db_msg db_state) + (unit \<times> db_msg db_state)) = Inl (e', s2)"
    and l2: "exit_ok ?db2 \<longrightarrow> e' = DatabaseError \<and> pending s2 = [] \<and> connection s2 = None"
    by blast
  have lv: "leave_with ?db2 (Inl (DatabaseError, ?s2) ::
        (py_error \<times> db_msg db_state) + (unit \<times> db_msg db_state)) =
     Inl (DatabaseError,
          \<lparr>connection = None, nesting = 0, connects = 1, exits = 1,
           pending = [], committed = [], queried = [], sent = []\<rparr>)"
    by (simp add: leave_with_def exit_conn_def connection_exit_def Let_def)
  from storeText_error_aborts [OF b c n, of "\<lambda>c. False" "[OEnd]"]
  have d: "db_loop ?db1 False (\<lambda>q. ''INSERT q'') (\<lambda>c. False) (OText (One (Failure ''C'')))
             [OEnd] in_block = Some (Inl (DatabaseError, ?s1))"
    by blast
  from a b c n lv d show ?thesis by blast
qed

section \<open>Verification: the Quota Guard\<close>

lemma checkQuotas_loop_drop:
  "i \<le> length q \<Longrightarrow>
     drop (checkQuotas_loop now q i) q = dropWhile (\<lambda>x. of_int x < now) (drop i q)"
proof (induction now q i rule: checkQuotas_loop.induct)
  case (1 now q i)
  show ?case
  proof (cases "i < length q \<and> of_int (q ! i) < now")
    case True
    then have d: "drop i q = q ! i # drop (i + 1) q"
      by (simp add: Cons_nth_drop_Suc)
    have "drop (checkQuotas_loop now q (i + 1)) q =
          dropWhile (\<lambda>x. of_int x < now) (drop (i + 1) q)"
      using 1(1) True by simp
    moreover have "checkQuotas_loop now q i = checkQuotas_loop now q (i + 1)"
      using True by (subst checkQuotas_loop.simps) simp
    ultimately show ?thesis using True d by simp
  next
    case False
    then have l: "checkQuotas_loop now q i = i"
      by (subst checkQuotas_loop.simps) auto
    show ?thesis
    proof (cases "i < length q")
      case True
      then have d: "drop i q = q ! i # drop (i + 1) q"
        by (simp add: Cons_nth_drop_Suc)
      then show ?thesis using False True l by simp
    next
      case False
      then show ?thesis using l 1(2) by simp
    qed
  qed
qed

lemma checkQuotas_dropWhile: "checkQuotas now q = dropWhile (\<lambda>x. of_int x < now) q"
  using checkQuotas_loop_drop[of 0 q now] by (simp add: checkQuotas_def)


lemma py_int_bounds: "of_int (py_int x) < x + 1" "x - 1 < of_int (py_int x)"
proof -
  show "of_int (py_int x) < x + 1"
  proof (cases "0 \<le> x")
    case True
    then have "py_int x = \<lfloor>x\<rfloor>" by (simp add: py_int_def)
    then show ?thesis by linarith
  next
    case False
    then have "py_int x = \<lceil>x\<rceil>" by (simp add: py_int_def)
    then show ?thesis by linarith
  qed
  show "x - 1 < of_int (py_int x)"
  proof (cases "0 \<le> x")
    case True
    then have "py_int x = \<lfloor>x\<rfloor>" by (simp add: py_int_def)
    then show ?thesis by linarith
  next
    case False
    then have "py_int x = \<lceil>x\<rceil>" by (simp add: py_int_def)
    then show ?thesis by linarith
  qed
qed

lemma py_int_le: "x \<le> of_int q \<Longrightarrow> py_int x \<le> q"
proof -
  assume a: "x \<le> of_int q"
  have "\<lfloor>x\<rfloor> \<le> q" using a by (simp add: floor_le_iff)
  moreover have "\<lceil>x\<rceil> \<le> q" using a by (simp add: ceiling_le_iff)
  ultimately show ?thesis by (simp add: py_int_def)
qed

lemma py_int_mono: "x \<le> y \<Longrightarrow> py_int x \<le> py_int y"
proof -
  assume a: "x \<le> y"
  have 1: "\<lfloor>x\<rfloor> \<le> \<lfloor>y\<rfloor>" using a by (rule floor_mono)
  have 2: "\<lceil>x\<rceil> \<le> \<lceil>y\<rceil>" using a by (rule ceiling_mono)
  have 3: "\<lceil>x\<rceil> \<le> \<lfloor>y\<rfloor>" if "x < 0" "0 \<le> y"
  proof -
    have "\<lceil>x\<rceil> \<le> 0" using that(1) by (simp add: ceiling_le_iff)
    moreover have "0 \<le> \<lfloor>y\<rfloor>" using that(2) by simp
    ultimately show ?thesis by linarith
  qed
  show ?thesis
  proof (cases "0 \<le> x")
    case True
    then have "0 \<le> y" using a by simp
    then show ?thesis using True 1 by (simp add: py_int_def)
  next
    case False
    then show ?thesis using 2 3 a by (cases "0 \<le> y") (simp_all add: py_int_def)
  qed
qed



lemma waitIfNeeded_gen:
  fixes now :: rat and tm :: timing and quotas :: "int list"
  assumes len: "length quotas \<le> QUOTA_LIMIT" and tm: "brisk tm"
  defines "q1 \<equiv> dropWhile (\<lambda>x. of_int x < now) quotas"
  defines "woken \<equiv> (if QUOTA_LIMIT \<le> length q1
                      then now + to_sleep tm +
                           of_int (hd q1 - py_int (now + to_sleep tm) + 1) + late tm
                      else now)"
  shows "waitIfNeeded tm now quotas =
           Inr (dropWhile (\<lambda>x. of_int x < woken + to_check tm) q1 @
                [py_int (woken + to_check tm + to_append tm) + PERIOD],
                woken + to_check tm + to_append tm)"
    and "length (dropWhile (\<lambda>x. of_int x < woken + to_check tm) q1 @
                [py_int (woken + to_check tm + to_append tm) + PERIOD]) \<le> QUOTA_LIMIT"
    and "QUOTA_LIMIT \<le> length q1 \<Longrightarrow> of_int (hd q1) < woken"
proof -
  have l1: "length q1 \<le> QUOTA_LIMIT"
    using len length_dropWhile_le[of "\<lambda>x. of_int x < now" quotas] by (simp add: q1_def)
  have g: "0 \<le> to_sleep tm" "to_sleep tm \<le> 1" "0 \<le> to_check tm" "0 \<le> to_append tm"
    "0 \<le> late tm"
    using tm by (simp_all add: brisk_def)
  have full: "0 \<le> q0 - py_int (now + to_sleep tm) + 1 \<and> of_int q0 < woken"
    if t: "QUOTA_LIMIT \<le> length q1" and q: "q1 = q0 # rest" for q0 rest
  proof -
    have "\<not> of_int q0 < now" using q hd_dropWhile[of "\<lambda>x. of_int x < now" quotas]
      by (simp add: q1_def)
    then have "now + to_sleep tm \<le> of_int (q0 + 1)" using g(2) by simp
    then have a: "py_int (now + to_sleep tm) \<le> q0 + 1" by (rule py_int_le)
    have "woken = now + to_sleep tm + of_int (q0 - py_int (now + to_sleep tm) + 1) + late tm"
      using t q by (simp add: woken_def)
    then have "of_int q0 < woken"
      using g(5) py_int_bounds(1)[of "now + to_sleep tm"] by simp
    then show ?thesis using a by simp
  qed
  show "waitIfNeeded tm now quotas =
           Inr (dropWhile (\<lambda>x. of_int x < woken + to_check tm) q1 @
                [py_int (woken + to_check tm + to_append tm) + PERIOD],
                woken + to_check tm + to_append tm)"
  proof (cases "QUOTA_LIMIT \<le> length q1")
    case True
    then obtain q0 rest where q: "q1 = q0 # rest" by (cases q1) (auto simp: QUOTA_LIMIT_def)
    have d: "\<not> q0 - py_int (now + to_sleep tm) + 1 < 0" using full[OF True q] by simp
    have n: "woken = now + to_sleep tm + of_int (q0 - py_int (now + to_sleep tm) + 1) + late tm"
      using True q by (simp add: woken_def)
    show ?thesis
      unfolding waitIfNeeded_def checkQuotas_dropWhile q1_def[symmetric] Let_def n
      using True q d by (simp add: sleep_def)
  next
    case False
    then have n: "woken = now" by (simp add: woken_def)
    show ?thesis
      unfolding waitIfNeeded_def checkQuotas_dropWhile q1_def[symmetric] Let_def n
      using False by simp
  qed
  show "length (dropWhile (\<lambda>x. of_int x < woken + to_check tm) q1 @
                [py_int (woken + to_check tm + to_append tm) + PERIOD]) \<le> QUOTA_LIMIT"
  proof (cases "QUOTA_LIMIT \<le> length q1")
    case True
    then obtain q0 rest where q: "q1 = q0 # rest" by (cases q1) (auto simp: QUOTA_LIMIT_def)
    have "of_int q0 < woken + to_check tm" using full[OF True q] g(3) by simp
    then have "dropWhile (\<lambda>x. of_int x < woken + to_check tm) q1 =
               dropWhile (\<lambda>x. of_int x < woken + to_check tm) rest"
      using q by simp
    moreover have "length (dropWhile (\<lambda>x. of_int x < woken + to_check tm) rest) \<le> length rest"
      by (rule length_dropWhile_le)
    ultimately show ?thesis using l1 q by simp
  next
    case False
    have "length (dropWhile (\<lambda>x. of_int x < woken + to_check tm) q1) \<le> length q1"
      by (rule length_dropWhile_le)
    then show ?thesis using False by simp
  qed
  show "QUOTA_LIMIT \<le> length q1 \<Longrightarrow> of_int (hd q1) < woken"
  proof -
    assume t: "QUOTA_LIMIT \<le> length q1"
    then obtain q0 rest where q: "q1 = q0 # rest" by (cases q1) (auto simp: QUOTA_LIMIT_def)
    from full[OF t q] q show ?thesis by simp
  qed
qed


text \<open>
  The bound on the window holds over any run of calls with such timings from the empty
  window of a new \<open>LegiConnector\<close>, and every call of the run returns.
\<close>

lemma waitIfNeeded_run_bound:
  "length quotas \<le> QUOTA_LIMIT \<Longrightarrow> \<forall>c\<in>set calls. brisk (fst c) \<Longrightarrow>
     \<exists>quotas' ts. waitIfNeeded_run calls quotas = Inr (quotas', ts) \<and>
       length quotas' \<le> QUOTA_LIMIT \<and> length ts = length calls"
proof (induction calls arbitrary: quotas)
  case Nil
  then show ?case by simp
next
  case (Cons c calls)
  obtain tm now where c: "c = (tm, now)" by (cases c)
  have b: "brisk tm" using Cons.prems(2) c by simp
  note g = waitIfNeeded_gen[OF Cons.prems(1) b, of now]
  from Cons.IH[OF g(2)] Cons.prems(2) obtain quotas' ts where
    "waitIfNeeded_run calls
       (dropWhile (\<lambda>x. rat_of_int x <
            (if QUOTA_LIMIT \<le> length (dropWhile (\<lambda>x. rat_of_int x < now) quotas)
             then now + to_sleep tm +
                  rat_of_int (hd (dropWhile (\<lambda>x. rat_of_int x < now) quotas) -
                              py_int (now + to_sleep tm) + 1) + late tm
             else now) + to_check tm)
          (dropWhile (\<lambda>x. rat_of_int x < now) quotas) @
        [py_int ((if QUOTA_LIMIT \<le> length (dropWhile (\<lambda>x. rat_of_int x < now) quotas)
             then now + to_sleep tm +
                  rat_of_int (hd (dropWhile (\<lambda>x. rat_of_int x < now) quotas) -
                              py_int (now + to_sleep tm) + 1) + late tm
             else now) + to_check tm + to_append tm) + PERIOD]) = Inr (quotas', ts)"
    "length quotas' \<le> QUOTA_LIMIT" "length ts = length calls"
    by auto
  then show ?case unfolding c by (simp add: g(1))
qed

text \<open>
  When the clock reading for the sleep comes late enough after the first reading, the
  argument of \<open>sleep\<close> is negative and the call raises.
\<close>

lemma py_int_ge: "of_int z \<le> x \<Longrightarrow> z \<le> py_int x"
proof -
  assume a: "of_int z \<le> x"
  have 1: "z \<le> \<lfloor>x\<rfloor>" using a by (simp add: le_floor_iff)
  have "\<lfloor>x\<rfloor> \<le> \<lceil>x\<rceil>" by (rule floor_le_ceiling)
  then have 2: "z \<le> \<lceil>x\<rceil>" using 1 by linarith
  show ?thesis using 1 2 by (simp add: py_int_def)
qed

lemma waitIfNeeded_late_reading_raises:
  assumes "QUOTA_LIMIT \<le> length (q0 # rest)" and "now \<le> of_int q0"
    and "of_int (q0 + 2) \<le> now + to_sleep tm"
  shows "waitIfNeeded tm now (q0 # rest) = Inl ValueError"
proof -
  have a: "checkQuotas now (q0 # rest) = q0 # rest"
    using assms(2) by (simp add: checkQuotas_dropWhile)
  have "q0 + 2 \<le> py_int (now + to_sleep tm)" using assms(3) by (rule py_int_ge)
  then have d: "q0 - py_int (now + to_sleep tm) + 1 < 0" by simp
  show ?thesis
    unfolding waitIfNeeded_def a Let_def
    using assms(1) d by (simp add: sleep_def)
qed







section \<open>Verification: the Source Agent\<close>

lemma first_cids_wf: "[] \<notin> set xs \<Longrightarrow> first_cids xs = Inr (map hd xs)"
  by (induction xs rule: first_cids.induct) auto

lemma helper_wf:
  assumes "[] \<notin> set (sr_results (search k))"
  shows "getTextIdListHelper search k r =
     Inr (Suc k, r + int (length (sr_results (search k))), sr_totalResultNumber (search k),
          map hd (sr_results (search k)))"
  using first_cids_wf[OF assms] by (simp add: getTextIdListHelper_def Let_def)

lemma loop_pages:
  assumes wf: "\<forall>k\<in>{1..n}. [] \<notin> set (sr_results (search k))"
    and more: "\<forall>k\<in>{1..<n}. returned search k < sr_totalResultNumber (search k)"
    and fin: "sr_totalResultNumber (search n) \<le> returned search n"
  shows "1 \<le> k \<Longrightarrow> k \<le> n \<Longrightarrow>
     getTextIdList_loop search (Suc k) (returned search k) (sr_totalResultNumber (search k)) acc =
     Some (Inr (acc @ map (\<lambda>j. (j, map hd (sr_results (search j)))) [Suc k..<Suc n]))"
proof (induction "n - k" arbitrary: k acc)
  case 0
  then have "k = n" by simp
  then show ?case using fin by (subst getTextIdList_loop.simps) simp
next
  case (Suc d)
  then have kn: "k < n" by simp
  then have lt: "returned search k < sr_totalResultNumber (search k)"
    using more Suc.prems by simp
  have wfk: "[] \<notin> set (sr_results (search (Suc k)))" using wf kn by simp
  have ih: "getTextIdList_loop search (Suc (Suc k)) (returned search (Suc k))
        (sr_totalResultNumber (search (Suc k))) (acc @ [(Suc k, map hd (sr_results (search (Suc k))))]) =
     Some (Inr ((acc @ [(Suc k, map hd (sr_results (search (Suc k))))]) @
        map (\<lambda>j. (j, map hd (sr_results (search j)))) [Suc (Suc k)..<Suc n]))"
    using Suc.hyps(1)[of "Suc k"] Suc.hyps(2) kn by simp
  have up: "[Suc k..<Suc n] = Suc k # [Suc (Suc k)..<Suc n]"
    using kn by (simp add: upt_conv_Cons)
  show ?case
    apply (subst getTextIdList_loop.simps)
    using lt helper_wf[of search "Suc k" "returned search k", OF wfk] ih up by simp
qed

text \<open>
  C8. Let the remote listing be such that every result of its pages \<open>1\<close> to \<open>n\<close> has a title,
  that after each page before the \<open>n\<close>-th the number of results returned so far is below
  the total reported with that page, and that with page \<open>n\<close> it reaches the total reported.
  Then a List order ends, having asked for the pages \<open>1, 2, ..., n\<close> in this order and no
  other; it sends one message for each page, in this order, with the ids of the page in the
  order of the listing, and after them the End-of-list message of the job.
\<close>

theorem getTextIdList_pages:
  assumes wf: "\<forall>k\<in>{1..n}. [] \<notin> set (sr_results (search k))"
    and more: "\<forall>k\<in>{1..<n}. returned search k < sr_totalResultNumber (search k)"
    and fin: "sr_totalResultNumber (search n) \<le> returned search n"
    and n: "1 \<le> n"
  shows "getTextIdList search =
           Some (Inr (map (\<lambda>k. (k, map hd (sr_results (search k)))) [1..<Suc n])) \<and>
         list_order search f =
           Some (Inr (map (\<lambda>k. LTextList f (map hd (sr_results (search k)))) [1..<Suc n] @
                      [LEnd f]))"
proof -
  have wf1: "[] \<notin> set (sr_results (search 1))" using wf n by simp
  have r1: "returned search 1 = int (length (sr_results (search 1)))" by simp
  have up: "[1..<Suc n] = 1 # [Suc 1..<Suc n]" using n by (simp add: upt_conv_Cons)
  have a: "getTextIdList search =
           Some (Inr (map (\<lambda>k. (k, map hd (sr_results (search k)))) [1..<Suc n]))"
    unfolding getTextIdList_def
    using helper_wf[of search 1 0, OF wf1]
      loop_pages[OF wf more fin, of 1 "[(1, map hd (sr_results (search 1)))]"] n r1 up
    by simp
  show ?thesis using a by (simp add: list_order_def comp_def)
qed

theorem getTextIdList_pages_witness:
  "list_order
       (\<lambda>p::nat. if p = 1
          then \<lparr>sr_totalResultNumber = 3, sr_results = [[''A''], [''B'', ''B2'']]\<rparr>
          else \<lparr>sr_totalResultNumber = 3, sr_results = [[''C'']]\<rparr>) ''TAFilter'' =
     Some (Inr [LTextList ''TAFilter'' [''A'', ''B''], LTextList ''TAFilter'' [''C''],
                LEnd ''TAFilter''])"
proof -
  let ?search = "\<lambda>p::nat. if p = 1
      then \<lparr>sr_totalResultNumber = 3, sr_results = [[''A''], [''B'', ''B2'']]\<rparr>
      else \<lparr>sr_totalResultNumber = 3, sr_results = [[''C'']]\<rparr>"
  have h1: "\<forall>k\<in>{1..2}. [] \<notin> set (sr_results (?search k))" by simp
  have r: "returned ?search (Suc 0) = 2" "returned ?search 2 = 3"
    by (simp_all add: numeral_2_eq_2)
  have h2: "\<forall>k\<in>{1..<2}. returned ?search k < sr_totalResultNumber (?search k)"
  proof
    fix k :: nat assume "k \<in> {1..<2}"
    then have "k = Suc 0" by auto
    then show "returned ?search k < sr_totalResultNumber (?search k)" using r by simp
  qed
  have h3: "sr_totalResultNumber (?search 2) \<le> returned ?search 2" using r by simp
  have h4: "(1::nat) \<le> 2" by simp
  have u: "[1..<Suc 2] = [1, 2]" by (simp add: upt_conv_Cons)
  from getTextIdList_pages [OF h1 h2 h3 h4, of "''TAFilter''"]
  have "list_order ?search ''TAFilter'' =
     Some (Inr [LTextList ''TAFilter'' [''A'', ''B''], LTextList ''TAFilter'' [''C''],
                LEnd ''TAFilter''])"
    unfolding u by simp
  then show ?thesis .
qed

text \<open>
  C9, as stated, fails: an answer of the remote service that has no content array at all
  makes \<open>_filterLegiText\<close> raise \<open>KeyError\<close>, and no message is sent for the item.
\<close>

theorem filterLegiText_missing_array_raises:
  "filterLegiText
     \<lparr>jorf_cid = Some ''JORFTEXT000000000001'', dateParution = Some 1590000000000,
      articles = None\<rparr> = Inl KeyError \<and>
   text_order
     (\<lambda>e. \<lparr>jorf_cid = Some e, dateParution = Some 1590000000000, articles = None\<rparr>)
     [''JORFTEXT000000000001''] ([] :: string legi_msg list) = Inl (KeyError, [])"
  by (simp add: filterLegiText_def)

text \<open>
  C9, amended. For every fetched item whose answer carries its id, its publication date and
  a content array that holds anything other than exactly one element (none, or several),
  the fetch path does not raise: the message for the item is sent with content \<open>None\<close>,
  carrying the id and the publication date, and the fetch goes on with the ids that remain.
\<close>

theorem filterLegiText_fails_soft:
  assumes "jorf_cid (consult e) = Some c" and "dateParution (consult e) = Some d"
    and "articles (consult e) = Some arts" and "length arts \<noteq> 1"
  shows "filterLegiText (consult e) =
           Inr \<lparr>t_cid = c, t_publicationDate = d, t_content = None\<rparr> \<and>
         text_order consult (e # es) out =
           text_order consult es
             (out @ [LText \<lparr>t_cid = c, t_publicationDate = d, t_content = None\<rparr>])"
  using assms by (simp add: filterLegiText_def)

theorem filterLegiText_fails_soft_witness:
  "text_order
     (\<lambda>e. \<lparr>jorf_cid = Some e, dateParution = Some 1590000000000,
            articles = Some (if e = ''A'' then [] else [Some ''<p>x</p>'', Some ''<p>y</p>''])\<rparr>)
     [''A'', ''B''] ([] :: string legi_msg list) =
   Inr [LText \<lparr>t_cid = ''A'', t_publicationDate = 1590000000000, t_content = None\<rparr>,
        LText \<lparr>t_cid = ''B'', t_publicationDate = 1590000000000, t_content = None\<rparr>]"
proof -
  let ?consult = "\<lambda>e::string. \<lparr>jorf_cid = Some e, dateParution = Some 1590000000000,
            articles = Some (if e = ''A'' then [] else [Some ''<p>x</p>'', Some ''<p>y</p>''])\<rparr>"
  have a: "jorf_cid (?consult ''A'') = Some ''A''"
    "dateParution (?consult ''A'') = Some 1590000000000"
    "articles (?consult ''A'') = Some []" "length ([] :: article list) \<noteq> 1"
    by simp_all
  have b: "jorf_cid (?consult ''B'') = Some ''B''"
    "dateParution (?consult ''B'') = Some 1590000000000"
    "articles (?consult ''B'') = Some [Some ''<p>x</p>'', Some ''<p>y</p>'']"
    "length [Some ''<p>x</p>'', Some ''<p>y</p>''] \<noteq> 1"
    by simp_all
  have 1: "text_order ?consult [''A'', ''B''] ([] :: string legi_msg list) =
           text_order ?consult [''B'']
             [LText \<lparr>t_cid = ''A'', t_publicationDate = 1590000000000, t_content = None\<rparr>]"
    using filterLegiText_fails_soft [of ?consult "''A''", OF a, of "[''B'']" "[] :: string legi_msg list"]
    by (simp del: text_order.simps)
  have 2: "text_order ?consult [''B'']
             [LText \<lparr>t_cid = ''A'', t_publicationDate = 1590000000000, t_content = None\<rparr> ::
                string legi_msg] =
           text_order ?consult []
             [LText \<lparr>t_cid = ''A'', t_publicationDate = 1590000000000, t_content = None\<rparr>,
              LText \<lparr>t_cid = ''B'', t_publicationDate = 1590000000000, t_content = None\<rparr>]"
    using filterLegiText_fails_soft [of ?consult "''B''", OF b, of "[]"
        "[LText \<lparr>t_cid = ''A'', t_publicationDate = 1590000000000, t_content = None\<rparr>] ::
           string legi_msg list"]
    by (simp del: text_order.simps)
  show ?thesis unfolding 1 2 by simp
qed

section \<open>Verification: the Coordinator\<close>

lemma continue_iff:
  "continue s \<longleftrightarrow> \<not> ({f. Filter f \<in> commandsSet s} = {} \<and> commandsDict s = [] \<and> Wait \<notin> commandsSet s)"
proof -
  have "commandsSet s = {} \<longleftrightarrow> {f. Filter f \<in> commandsSet s} = {} \<and> Wait \<notin> commandsSet s"
  proof
    assume "commandsSet s = {}" then show "{f. Filter f \<in> commandsSet s} = {} \<and> Wait \<notin> commandsSet s" by simp
  next
    assume a: "{f. Filter f \<in> commandsSet s} = {} \<and> Wait \<notin> commandsSet s"
    show "commandsSet s = {}"
    proof (rule ccontr)
      assume "commandsSet s \<noteq> {}"
      then obtain x where x: "x \<in> commandsSet s" by blast
      then show False using a by (cases x) auto
    qed
  qed
  then show ?thesis by (auto simp: continue_def)
qed

lemma loop_exit:
  "Middleman_loop env sched s = Some (Inr s') \<Longrightarrow>
     \<exists>s0. \<not> continue s0 \<and> s' = shutdown s0"
proof (induction sched arbitrary: s)
  case Nil
  then show ?case by (auto split: if_splits)
next
  case (Cons a rest)
  show ?case
  proof (cases "continue s")
    case True
    with Cons.prems obtain s1 where "turn env a s = Inr s1" "Middleman_loop env rest s1 = Some (Inr s')"
      by (auto split: sum.splits)
    then show ?thesis using Cons.IH by blast
  next
    case False
    then show ?thesis using Cons.prems by auto
  qed
qed

text \<open>
  C1. The loop of the Coordinator goes on exactly as long as a job has its listing open, an
  entry remains in the tracking dictionary or orders are still accepted. In a state where
  none of the three holds, the loop is left at once, whatever may still arrive, and the
  shutdown signal is sent to the Source Agent and to the Store Agent and the completion
  reported on the control connection. In a state where one of them holds, the Coordinator
  waits, and takes its next turn with what arrives. Whenever the Coordinator has returned,
  no job was open, no entry tracked and no order accepted any more, and the last message
  on each of the three connections is the end marker.
\<close>

theorem Middleman_loop_terminates:
  "(continue s \<longleftrightarrow>
      \<not> ({f. Filter f \<in> commandsSet s} = {} \<and> commandsDict s = [] \<and> Wait \<notin> commandsSet s)) \<and>
   (if continue s
    then Middleman_loop env [] s = None \<and>
         Middleman_loop env (a # rest) s =
           (case turn env a s of
              Inl e \<Rightarrow> Some (Inl e)
            | Inr s1 \<Rightarrow> Middleman_loop env rest s1)
    else Middleman_loop env sched s = Some (Inr (shutdown s))) \<and>
   (Middleman_loop env sched s = Some (Inr s') \<longrightarrow>
      {f. Filter f \<in> commandsSet s'} = {} \<and> commandsDict s' = [] \<and> Wait \<notin> commandsSet s' \<and>
      (\<exists>l d c. toLegi s' = l @ [LegiEnd] \<and> toDb s' = d @ [OEnd] \<and>
                 fromCommand s' = c @ [CEnd]))"
proof -
  have 1: "if continue s
    then Middleman_loop env [] s = None \<and>
         Middleman_loop env (a # rest) s =
           (case turn env a s of
              Inl e \<Rightarrow> Some (Inl e)
            | Inr s1 \<Rightarrow> Middleman_loop env rest s1)
    else Middleman_loop env sched s = Some (Inr (shutdown s))"
    by (cases sched) simp_all
  have 2: "{f. Filter f \<in> commandsSet s'} = {} \<and> commandsDict s' = [] \<and>
      Wait \<notin> commandsSet s' \<and>
      (\<exists>l d c. toLegi s' = l @ [LegiEnd] \<and> toDb s' = d @ [OEnd] \<and>
                 fromCommand s' = c @ [CEnd])"
    if "Middleman_loop env sched s = Some (Inr s')"
  proof -
    from loop_exit[OF that] obtain s0 where s0: "\<not> continue s0" "s' = shutdown s0" by blast
    have "\<not> continue s'" using s0 by (simp add: continue_def shutdown_def)
    then have "{f. Filter f \<in> commandsSet s'} = {} \<and> commandsDict s' = [] \<and>
      Wait \<notin> commandsSet s'"
      using continue_iff[of s'] by blast
    then show ?thesis using s0(2) by (simp add: shutdown_def)
  qed
  from continue_iff[of s] 1 2 show ?thesis by blast
qed

theorem Middleman_loop_terminates_witness:
  "continue (Middleman_init :: string middleman) \<and>
   Middleman_loop sample_patterns [] Middleman_init = None \<and>
   Middleman_loop sample_patterns
     [\<lparr>onCommand = [CFilter ''TAFilter'', CEnd], onLegi = [], onDb = []\<rparr>,
      \<lparr>onCommand = [], onLegi = [LTextList ''TAFilter'' [''A'', ''B''], LEnd ''TAFilter''],
       onDb = []\<rparr>,
      \<lparr>onCommand = [], onLegi = [], onDb = [DbTextList ''A'' []]\<rparr>]
     Middleman_init =
     Some (Inr \<lparr>commandsSet = {}, commandsDict = [], toLegi = [ListOrder ''TAFilter'', LegiEnd],
        toDb = [OTextList (Many [''A'', ''B'']), OEnd], fromCommand = [CEnd]\<rparr>) \<and>
   (\<exists>l d c. [ListOrder ''TAFilter'', LegiEnd] = l @ [LegiEnd] \<and>
      [OTextList (Many [''A'', ''B'']), OEnd] = d @ [OEnd] \<and>
      [CEnd :: string ctrl_msg] = c @ [CEnd])"
proof -
  let ?sched = "[\<lparr>onCommand = [CFilter ''TAFilter'', CEnd], onLegi = [], onDb = []\<rparr>,
      \<lparr>onCommand = [], onLegi = [LTextList ''TAFilter'' [''A'', ''B''], LEnd ''TAFilter''],
       onDb = []\<rparr>,
      \<lparr>onCommand = [], onLegi = [], onDb = [DbTextList ''A'' []]\<rparr>]"
  let ?final = "\<lparr>commandsSet = {}, commandsDict = [],
        toLegi = [ListOrder ''TAFilter'', LegiEnd],
        toDb = [OTextList (Many [''A'', ''B'']), OEnd], fromCommand = [CEnd]\<rparr>"
  have c: "continue (Middleman_init :: string middleman)"
    by (simp add: continue_def Middleman_init_def)
  have r: "Middleman_loop sample_patterns ?sched Middleman_init = Some (Inr ?final)"
    by (simp add: Middleman_init_def continue_def turn_def shutdown_def insert_Diff_if)
  from Middleman_loop_terminates
    [of Middleman_init sample_patterns "hd ?sched" "tl ?sched" "[]" ?final] c
  have n: "Middleman_loop sample_patterns [] (Middleman_init :: string middleman) = None"
    by simp
  from Middleman_loop_terminates
    [of Middleman_init sample_patterns "hd ?sched" "tl ?sched" ?sched ?final] r
  have e: "\<exists>l d c. [ListOrder ''TAFilter'', LegiEnd] = l @ [LegiEnd] \<and>
      [OTextList (Many [''A'', ''B'']), OEnd] = d @ [OEnd] \<and>
      [CEnd :: string ctrl_msg] = c @ [CEnd]"
    by simp
  from c n r e show ?thesis by blast
qed

text \<open>
  C2, as the code behaves. For a listing without results the Source Agent sends a page
  without ids and then the End-of-list message, and raises nothing. The Coordinator, for any
  page without ids, sends the empty batch to the Store Agent for the existence check and
  then raises \<open>IndexError\<close> on the first id of the page; run from its start on such a
  listing it ends with this error, the empty batch sent. The Store Agent raises
  \<open>IndexError\<close> on the empty batch as well.
\<close>

theorem empty_page_is_checked:
  "list_order (\<lambda>n. \<lparr>sr_totalResultNumber = 0, sr_results = []\<rparr>) ''TAFilter'' =
     Some (Inr [LTextList ''TAFilter'' [], LEnd ''TAFilter'']) \<and>
   handleLegiMsg env (LTextList f [] # ms) s =
     Inl (IndexError, s\<lparr>toDb := toDb s @ [OTextList (Many [])]\<rparr>) \<and>
   Middleman sample_patterns
     [\<lparr>onCommand = [CFilter ''TAFilter'', CEnd], onLegi = [], onDb = []\<rparr>,
      \<lparr>onCommand = [], onLegi = [LTextList ''TAFilter'' [], LEnd ''TAFilter''], onDb = []\<rparr>] =
     Some (Inl (IndexError,
       \<lparr>commandsSet = {Filter ''TAFilter''}, commandsDict = [],
        toLegi = [ListOrder ''TAFilter''], toDb = [OTextList (Many [])], fromCommand = []\<rparr>)) \<and>
   checkIfKnown db_fine (\<lambda>q. ''EXECUTE selectCid (%s)'') (\<lambda>x. False) (Many [])
     (in_block :: db_msg db_state) = Inl (IndexError, in_block)"
  by (simp add: list_order_def getTextIdList_def getTextIdListHelper_def
      getTextIdList_loop.simps Middleman_def Middleman_init_def continue_def turn_def
      checkIfKnown_def insert_Diff_if)

text \<open>
  C3, as the code behaves. For every fetched item that is tracked, whose filter has at least
  one pattern and whose content is \<open>None\<close>, the Coordinator does call the matching of the
  first pattern on the missing content: \<open>re.match\<close> raises \<open>TypeError\<close>, the Coordinator ends
  with it, and nothing has been sent to the Store Agent for the item.
\<close>

theorem handleLegiMsg_no_content_raises:
  assumes "map_of (commandsDict s) (t_cid text) = Some criteria"
    and "structs env criteria \<noteq> []" and "t_content text = None"
  shows "handleLegiMsg env (LText text # ms) s = Inl (TypeError, s)"
proof -
  obtain p ps where "structs env criteria = p # ps"
    using assms(2) by (cases "structs env criteria") auto
  then show ?thesis using assms(1,3) by (simp add: parseText_def Pattern_match_def)
qed

theorem handleLegiMsg_no_content_raises_witness:
  "map_of [(''C'', ''TAFilter'')] ''C'' = Some ''TAFilter'' \<and>
   structs sample_patterns ''TAFilter'' \<noteq> [] \<and>
   handleLegiMsg sample_patterns
     [LText \<lparr>t_cid = ''C'', t_publicationDate = 1590000000000, t_content = None\<rparr>]
     \<lparr>commandsSet = {}, commandsDict = [(''C'', ''TAFilter'')],
      toLegi = [ListOrder ''TAFilter'', TextOrder (Many [''C''])],
      toDb = [OTextList (Many [''C''])], fromCommand = []\<rparr> =
   Inl (TypeError,
     \<lparr>commandsSet = {}, commandsDict = [(''C'', ''TAFilter'')],
      toLegi = [ListOrder ''TAFilter'', TextOrder (Many [''C''])],
      toDb = [OTextList (Many [''C''])], fromCommand = []\<rparr>)"
proof -
  let ?s = "\<lparr>commandsSet = {}, commandsDict = [(''C'', ''TAFilter'')],
      toLegi = [ListOrder ''TAFilter'', TextOrder (Many [''C''])],
      toDb = [OTextList (Many [''C''])], fromCommand = []\<rparr> :: string middleman"
  let ?t = "\<lparr>t_cid = ''C'', t_publicationDate = 1590000000000, t_content = None\<rparr>"
  have h1: "map_of (commandsDict ?s) (t_cid ?t) = Some ''TAFilter''" by simp
  have h2: "structs sample_patterns ''TAFilter'' \<noteq> []" by (simp add: sample_patterns_def)
  have h3: "t_content ?t = None" by simp
  from handleLegiMsg_no_content_raises [OF h1 h2 h3, of "[]"] h2
  show ?thesis by simp
qed

end

